theory Spec2Isabelle
  imports Main "HOL-Library.Word" "HOL-Library.Monad_Syntax"
begin

unbundle bit_operations_syntax

section \<open>Machine types\<close>

text \<open>
  The kernel is built for x86-64: pointers, \<open>size_t\<close> and \<open>uint64_t\<close> are 64-bit words,
  \<open>uint32_t\<close> is a 32-bit word and \<open>uint8_t\<close> a byte. A pointer is its address; \<open>NULL\<close> is
  the address 0. Arithmetic on words wraps around as the C arithmetic does.
\<close>

type_synonym addr = "64 word"
type_synonym u64 = "64 word"
type_synonym u32 = "32 word"
type_synonym u8 = "8 word"

definition NULL :: addr where
  "NULL = 0"

section \<open>Memory manager (MyOS/kernel/mm.c)\<close>

subsection \<open>State\<close>

text \<open>
  \<open>heap_block_t\<close> is the header in front of every heap allocation. Its fields carry the
  prefix \<open>hb_\<close> here (\<open>size\<close> is a constant of HOL already): \<open>hb_size\<close> is \<open>size\<close>, \<open>hb_free\<close> is
  \<open>free\<close>, \<open>hb_next\<close> and \<open>hb_prev\<close> are the two list pointers.
\<close>

record heap_block =
  hb_size :: u64
  hb_free :: bool
  hb_next :: addr
  hb_prev :: addr

text \<open>
  The file-level variables of mm.c, together with the memory they point into. Memory is
  split by the type it is read at: \<open>physical_bitmap\<close> maps a byte index to the byte of the
  frame bitmap (the array at \<open>0x300000\<close>), \<open>blocks\<close> maps an address to the block header read
  there, and \<open>bytes\<close> maps an address to the payload byte stored there.
\<close>

record mm =
  physical_bitmap :: "u64 \<Rightarrow> u8"
  total_memory :: u64
  available_memory :: u64
  bitmap_size :: u64
  heap_start :: addr
  heap_end :: addr
  heap_initialized :: bool
  next_free_frame :: u64
  blocks :: "addr \<Rightarrow> heap_block"
  bytes :: "addr \<Rightarrow> u8"

definition PAGE_SIZE :: u64 where
  "PAGE_SIZE = 4096"

text \<open>
  The state at boot: every variable holds its static initialiser, and the three memories
  hold whatever the machine powered up with.
\<close>

definition mm_boot :: "(u64 \<Rightarrow> u8) \<Rightarrow> (addr \<Rightarrow> heap_block) \<Rightarrow> (addr \<Rightarrow> u8) \<Rightarrow> mm" where
  "mm_boot bm hs bs =
     \<lparr> physical_bitmap = bm, total_memory = 0, available_memory = 0, bitmap_size = 0,
       heap_start = NULL, heap_end = NULL, heap_initialized = False, next_free_frame = 0,
       blocks = hs, bytes = bs \<rparr>"

subsection \<open>Physical frame allocator\<close>

definition is_frame_used :: "u64 \<Rightarrow> mm \<Rightarrow> bool" where
  "is_frame_used frame s =
     (let byte = frame div 8; bit = unat (frame mod 8)
      in physical_bitmap s byte AND push_bit bit 1 \<noteq> 0)"

definition set_frame_used :: "u64 \<Rightarrow> mm \<Rightarrow> mm" where
  "set_frame_used frame s =
     (let byte = frame div 8; bit = unat (frame mod 8)
      in s\<lparr>physical_bitmap :=
            (physical_bitmap s)(byte := physical_bitmap s byte OR push_bit bit 1)\<rparr>)"

definition clear_frame_used :: "u64 \<Rightarrow> mm \<Rightarrow> mm" where
  "clear_frame_used frame s =
     (let byte = frame div 8; bit = unat (frame mod 8)
      in s\<lparr>physical_bitmap :=
            (physical_bitmap s)(byte := physical_bitmap s byte AND NOT (push_bit bit 1))\<rparr>)"

text \<open>\<open>memset(physical_bitmap, 0, n)\<close>: the first \<open>n\<close> bytes of the bitmap become 0.\<close>

definition memset_bitmap :: "u64 \<Rightarrow> mm \<Rightarrow> mm" where
  "memset_bitmap n s =
     s\<lparr>physical_bitmap := (\<lambda>i. if i < n then 0 else physical_bitmap s i)\<rparr>"

text \<open>
  The loop \<open>for (i = 0; i < n; i++) set_frame_used(i)\<close> of \<open>init_paging\<close>, started at \<open>i\<close>.
\<close>

function mark_frames_used :: "u64 \<Rightarrow> u64 \<Rightarrow> mm \<Rightarrow> mm" where
  "mark_frames_used i n s =
     (if i < n then mark_frames_used (i + 1) n (set_frame_used i s) else s)"
  by pat_completeness auto

lemma word_succ_measure:
  fixes i n :: u64
  assumes "i < n"
  shows "unat n - unat (i + 1) < unat n - unat i"
proof -
  have lt: "unat i < unat n"
    using assms by (simp add: word_less_nat_alt)
  moreover have "unat n < 2 ^ 64"
    using unsigned_less [of n, where 'a = nat] by simp
  ultimately have "unat (i + 1) = unat i + 1"
    by (simp add: unat_word_ariths)
  with lt show ?thesis by simp
qed

termination mark_frames_used
  by (relation "measure (\<lambda>(i, n, s). unat n - unat i)") (auto simp: word_succ_measure)

text \<open>
  \<open>init_paging\<close> returns 0 always; the model returns the state. \<open>kprintf\<close> writes to the
  console, which is not part of this state.
\<close>

definition init_paging :: "mm \<Rightarrow> mm" where
  "init_paging s =
     (let s1 = s\<lparr>total_memory := 128 * 1024 * 1024\<rparr>;
          s2 = s1\<lparr>available_memory := total_memory s1 - 0x400000\<rparr>;
          s3 = s2\<lparr>bitmap_size := (total_memory s2 div PAGE_SIZE) div 8\<rparr>;
          s4 = memset_bitmap (bitmap_size s3) s3
      in mark_frames_used 0 (0x400000 div PAGE_SIZE) s4)"

text \<open>
  One scanning loop of \<open>alloc_frame\<close>: the first frame in \<open>[i, n)\<close> whose bit is clear, or
  \<open>None\<close> when the loop runs to its end.
\<close>

function scan_frames :: "u64 \<Rightarrow> u64 \<Rightarrow> mm \<Rightarrow> u64 option" where
  "scan_frames i n s =
     (if i < n then (if \<not> is_frame_used i s then Some i else scan_frames (i + 1) n s)
      else None)"
  by pat_completeness auto

termination scan_frames
  by (relation "measure (\<lambda>(i, n, s). unat n - unat i)") (auto simp: word_succ_measure)

definition take_frame :: "u64 \<Rightarrow> mm \<Rightarrow> mm \<times> addr" where
  "take_frame i s = ((set_frame_used i s)\<lparr>next_free_frame := i + 1\<rparr>, i * PAGE_SIZE)"

definition alloc_frame :: "mm \<Rightarrow> mm \<times> addr" where
  "alloc_frame s =
     (case scan_frames (next_free_frame s) (total_memory s div PAGE_SIZE) s of
        Some i \<Rightarrow> take_frame i s
      | None \<Rightarrow>
          (case scan_frames 0 (next_free_frame s) s of
             Some i \<Rightarrow> take_frame i s
           | None \<Rightarrow> (s, 0)))"

definition free_frame :: "addr \<Rightarrow> mm \<Rightarrow> mm" where
  "free_frame frame_addr s =
     (let frame = frame_addr div PAGE_SIZE
      in if frame < total_memory s div PAGE_SIZE
         then (let s1 = clear_frame_used frame s
               in if frame < next_free_frame s1 then s1\<lparr>next_free_frame := frame\<rparr> else s1)
         else s)"

subsection \<open>Kernel heap\<close>

text \<open>
  \<open>mm_init\<close> installs one free block over the whole region. \<open>H\<close> is \<open>sizeof(heap_block_t)\<close>;
  the declaration of \<open>heap_block_t\<close> is not among the sources, so every heap function takes
  the header size as its first argument.
\<close>

definition mm_init :: "u64 \<Rightarrow> addr \<Rightarrow> u64 \<Rightarrow> mm \<Rightarrow> mm" where
  "mm_init H heap_start_addr heap_size s =
     s\<lparr> heap_start := heap_start_addr,
        heap_end := heap_start_addr + heap_size,
        blocks := (blocks s)(heap_start_addr :=
          \<lparr> hb_size = heap_size - H, hb_free = True, hb_next = NULL, hb_prev = NULL \<rparr>),
        heap_initialized := True \<rparr>"

text \<open>
  One C assignment through a block pointer, \<open>p->field = v\<close>, is one \<open>store_blk\<close>; the four
  readers are \<open>p->size\<close>, \<open>p->free\<close>, \<open>p->next\<close> and \<open>p->prev\<close> in the current state. Every
  function below performs the assignments of its source one by one and in the source's
  order, so that whatever aliasing the pointers have is the aliasing of the model.
\<close>

definition store_blk :: "addr \<Rightarrow> (heap_block \<Rightarrow> heap_block) \<Rightarrow> mm \<Rightarrow> mm" where
  "store_blk p f s = s\<lparr>blocks := (blocks s)(p := f (blocks s p))\<rparr>"

definition size_of :: "mm \<Rightarrow> addr \<Rightarrow> u64" where
  "size_of s p = hb_size (blocks s p)"

definition free_of :: "mm \<Rightarrow> addr \<Rightarrow> bool" where
  "free_of s p = hb_free (blocks s p)"

definition next_of :: "mm \<Rightarrow> addr \<Rightarrow> addr" where
  "next_of s p = hb_next (blocks s p)"

definition prev_of :: "mm \<Rightarrow> addr \<Rightarrow> addr" where
  "prev_of s p = hb_prev (blocks s p)"

text \<open>
  The body of the \<open>if (current->size > size + sizeof(heap_block_t) + 8)\<close> branch of
  \<open>kmalloc\<close>: the block is cut into a block of \<open>sz\<close> bytes and a new free block behind it.
\<close>

definition split_block :: "u64 \<Rightarrow> u64 \<Rightarrow> addr \<Rightarrow> mm \<Rightarrow> mm" where
  "split_block H sz current s =
     (let new_block = current + H + sz;
          s1 = store_blk new_block (\<lambda>b. b\<lparr>hb_size := size_of s current - sz - H\<rparr>) s;
          s2 = store_blk new_block (\<lambda>b. b\<lparr>hb_free := True\<rparr>) s1;
          s3 = store_blk new_block (\<lambda>b. b\<lparr>hb_next := next_of s2 current\<rparr>) s2;
          s4 = store_blk new_block (\<lambda>b. b\<lparr>hb_prev := current\<rparr>) s3;
          s5 = (if next_of s4 current \<noteq> NULL
                then store_blk (next_of s4 current) (\<lambda>b. b\<lparr>hb_prev := new_block\<rparr>) s4
                else s4);
          s6 = store_blk current (\<lambda>b. b\<lparr>hb_next := new_block\<rparr>) s5
      in store_blk current (\<lambda>b. b\<lparr>hb_size := sz\<rparr>) s6)"

text \<open>
  The body of the \<open>if (current->free && current->size >= size)\<close> branch: split when the
  block is large enough, mark it used, return the payload address (the second component;
  the first is the heap after the allocation).
\<close>

definition take_block :: "u64 \<Rightarrow> u64 \<Rightarrow> addr \<Rightarrow> mm \<Rightarrow> mm \<times> addr" where
  "take_block H sz current s =
     (let s1 = (if size_of s current > sz + H + 8 then split_block H sz current s else s)
      in (store_blk current (\<lambda>b. b\<lparr>hb_free := False\<rparr>) s1, current + H))"

text \<open>
  The first-fit loop \<open>while (current)\<close> of \<open>kmalloc\<close>. It follows the \<open>next\<close> pointers of the
  block list; on a list that runs into a cycle of unsuitable blocks it never ends, which is
  the value \<open>None\<close>. The result \<open>Some (s, NULL)\<close> is the return of \<open>NULL\<close>: out of memory.
\<close>

partial_function (option) kmalloc_scan :: "u64 \<Rightarrow> u64 \<Rightarrow> addr \<Rightarrow> mm \<Rightarrow> (mm \<times> addr) option" where
  "kmalloc_scan H sz current s =
     (if current \<noteq> NULL
      then (if free_of s current \<and> size_of s current \<ge> sz
            then Some (take_block H sz current s)
            else kmalloc_scan H sz (next_of s current) s)
      else Some (s, NULL))"

definition kmalloc :: "u64 \<Rightarrow> u64 \<Rightarrow> mm \<Rightarrow> (mm \<times> addr) option" where
  "kmalloc H size0 s =
     (if \<not> heap_initialized s \<or> size0 = 0 then Some (s, NULL)
      else kmalloc_scan H ((size0 + 7) AND NOT 7) (heap_start s) s)"

text \<open>The two coalescing steps of \<open>kfree\<close>, each on the block at \<open>block\<close>.\<close>

definition coalesce_next :: "u64 \<Rightarrow> addr \<Rightarrow> mm \<Rightarrow> mm" where
  "coalesce_next H block s =
     (if next_of s block \<noteq> NULL \<and> free_of s (next_of s block)
      then (let s1 = store_blk block
                       (\<lambda>b. b\<lparr>hb_size := hb_size b + (size_of s (next_of s block) + H)\<rparr>) s;
                s2 = (if next_of s1 (next_of s1 block) \<noteq> NULL
                      then store_blk (next_of s1 (next_of s1 block)) (\<lambda>b. b\<lparr>hb_prev := block\<rparr>) s1
                      else s1)
            in store_blk block (\<lambda>b. b\<lparr>hb_next := next_of s2 (next_of s2 block)\<rparr>) s2)
      else s)"

definition coalesce_prev :: "u64 \<Rightarrow> addr \<Rightarrow> mm \<Rightarrow> mm" where
  "coalesce_prev H block s =
     (if prev_of s block \<noteq> NULL \<and> free_of s (prev_of s block)
      then (let s1 = store_blk (prev_of s block)
                       (\<lambda>b. b\<lparr>hb_size := hb_size b + (size_of s block + H)\<rparr>) s;
                s2 = (if next_of s1 block \<noteq> NULL
                      then store_blk (next_of s1 block) (\<lambda>b. b\<lparr>hb_prev := prev_of s1 block\<rparr>) s1
                      else s1)
            in store_blk (prev_of s2 block) (\<lambda>b. b\<lparr>hb_next := next_of s2 block\<rparr>) s2)
      else s)"

definition kfree :: "u64 \<Rightarrow> addr \<Rightarrow> mm \<Rightarrow> mm" where
  "kfree H ptr s =
     (if ptr = NULL \<or> \<not> heap_initialized s then s
      else (let block = ptr - H
            in if block < heap_start s \<or> block \<ge> heap_end s then s
               else coalesce_prev H block
                      (coalesce_next H block
                        (store_blk block (\<lambda>b. b\<lparr>hb_free := True\<rparr>) s))))"

text \<open>
  \<open>memset\<close> and \<open>memcpy\<close> write raw memory, and the memory of the model is split into block
  headers and payload bytes. A write of \<open>n\<close> bytes at \<open>dst\<close> is therefore two updates: the
  payload map takes the bytes, and every block header with a byte in \<open>[dst, dst + n)\<close> is
  overwritten by them. \<open>heap_block_t\<close> is not declared in the sources; its fields are those
  of \<open>block_t\<close> of mm.h, \<open>size_t size; bool free; next; prev\<close>, which the x86-64 ABI lays out
  little-endian at the offsets 0, 8, 16 and 24 of a 32-byte structure. \<open>hdr_byte h k\<close> is
  byte \<open>k\<close> of the header \<open>h\<close> in memory, \<open>hdr_of_bytes f\<close> is the header read from the 32
  bytes \<open>f 0\<close>, ..., \<open>f 31\<close>.
\<close>

definition byte_of :: "u64 \<Rightarrow> u64 \<Rightarrow> u8" where
  "byte_of w k = ucast (drop_bit (8 * unat k) w)"

definition le64 :: "(u64 \<Rightarrow> u8) \<Rightarrow> u64" where
  "le64 f =
     ucast (f 0) OR push_bit 8 (ucast (f 1)) OR push_bit 16 (ucast (f 2)) OR
     push_bit 24 (ucast (f 3)) OR push_bit 32 (ucast (f 4)) OR push_bit 40 (ucast (f 5)) OR
     push_bit 48 (ucast (f 6)) OR push_bit 56 (ucast (f 7))"

definition hdr_byte :: "heap_block \<Rightarrow> u64 \<Rightarrow> u8" where
  "hdr_byte h k =
     (if k < 8 then byte_of (hb_size h) k
      else if k = 8 then (if hb_free h then 1 else 0)
      else if 16 \<le> k \<and> k < 24 then byte_of (hb_next h) (k - 16)
      else if 24 \<le> k \<and> k < 32 then byte_of (hb_prev h) (k - 24)
      else 0)"

definition hdr_of_bytes :: "(u64 \<Rightarrow> u8) \<Rightarrow> heap_block" where
  "hdr_of_bytes f =
     \<lparr> hb_size = le64 f, hb_free = (f 8 \<noteq> 0), hb_next = le64 (\<lambda>i. f (16 + i)),
       hb_prev = le64 (\<lambda>i. f (24 + i)) \<rparr>"

text \<open>
  \<open>hdr_touched p dst n\<close>: the header at \<open>p\<close> has a byte in \<open>[dst, dst + n)\<close>. \<open>raw_write dst n f\<close>
  stores the byte \<open>f i\<close> at \<open>dst + i\<close> for every \<open>i < n\<close>; a header it touches is read again
  from its bytes, the written ones and the ones that stay.
\<close>

definition hdr_touched :: "addr \<Rightarrow> addr \<Rightarrow> u64 \<Rightarrow> bool" where
  "hdr_touched p dst n = (p - dst < n \<or> (n \<noteq> 0 \<and> dst - p < 32))"

definition raw_write :: "addr \<Rightarrow> u64 \<Rightarrow> (u64 \<Rightarrow> u8) \<Rightarrow> mm \<Rightarrow> mm" where
  "raw_write dst n f s =
     s\<lparr> bytes := (\<lambda>a. if a - dst < n then f (a - dst) else bytes s a),
        blocks := (\<lambda>p. if hdr_touched p dst n
                        then hdr_of_bytes
                               (\<lambda>k. if p + k - dst < n then f (p + k - dst)
                                     else hdr_byte (blocks s p) k)
                        else blocks s p) \<rparr>"

text \<open>
  \<open>memset(ptr, 0, n)\<close> and \<open>memcpy(dst, src, n)\<close>. The bytes copied are the payload bytes at
  \<open>src\<close> before the call; where source and destination overlap the C function promises
  nothing, and the model copies as a byte-by-byte copy from the low end does when \<open>dst\<close>
  lies below \<open>src\<close>.
\<close>

definition memset_zero :: "addr \<Rightarrow> u64 \<Rightarrow> mm \<Rightarrow> mm" where
  "memset_zero ptr n s = raw_write ptr n (\<lambda>_. 0) s"

definition memcpy :: "addr \<Rightarrow> addr \<Rightarrow> u64 \<Rightarrow> mm \<Rightarrow> mm" where
  "memcpy dst src n s = raw_write dst n (\<lambda>i. bytes s (src + i)) s"

definition kcalloc :: "u64 \<Rightarrow> u64 \<Rightarrow> u64 \<Rightarrow> mm \<Rightarrow> (mm \<times> addr) option" where
  "kcalloc H num sz s =
     (let total_size = num * sz
      in do {
        (s1, ptr) \<leftarrow> kmalloc H total_size s;
        Some (if ptr \<noteq> NULL then memset_zero ptr total_size s1 else s1, ptr)
      })"

definition krealloc :: "u64 \<Rightarrow> addr \<Rightarrow> u64 \<Rightarrow> mm \<Rightarrow> (mm \<times> addr) option" where
  "krealloc H ptr new_size s =
     (if ptr = NULL then kmalloc H new_size s
      else if new_size = 0 then Some (kfree H ptr s, NULL)
      else (let block = ptr - H
            in if size_of s block \<ge> new_size then Some (s, ptr)
               else do {
                 (s1, new_ptr) \<leftarrow> kmalloc H new_size s;
                 if new_ptr \<noteq> NULL
                 then (let n = (if size_of s1 block < new_size then size_of s1 block
                                else new_size)
                       in Some (kfree H ptr (memcpy new_ptr ptr n s1), new_ptr))
                 else Some (s1, new_ptr)
               }))"

section \<open>Tasks and scheduler (kernel/task.c)\<close>

subsection \<open>Types of task.h\<close>

datatype task_state = TASK_RUNNING | TASK_READY | TASK_BLOCKED | TASK_SUSPENDED | TASK_TERMINATED

text \<open>
  \<open>task_priority_t\<close> is a C enumeration: a variable of that type holds any unsigned value, and
  task.c compares it with \<open>PRIORITY_CRITICAL\<close> before it indexes \<open>ready_queues\<close>. It is a
  natural number here.
\<close>

definition PRIORITY_IDLE :: nat where "PRIORITY_IDLE = 0"
definition PRIORITY_LOW :: nat where "PRIORITY_LOW = 1"
definition PRIORITY_NORMAL :: nat where "PRIORITY_NORMAL = 2"
definition PRIORITY_HIGH :: nat where "PRIORITY_HIGH = 3"
definition PRIORITY_CRITICAL :: nat where "PRIORITY_CRITICAL = 4"

definition TASK_FLAG_KERNEL :: u32 where "TASK_FLAG_KERNEL = 1"
definition TASK_FLAG_USER :: u32 where "TASK_FLAG_USER = 2"
definition TASK_FLAG_SYSTEM :: u32 where "TASK_FLAG_SYSTEM = 4"
definition TASK_FLAG_FPU :: u32 where "TASK_FLAG_FPU = 16"

definition TASK_STACK_SIZE :: u64 where "TASK_STACK_SIZE = 8192"
definition TASK_NAME_MAX :: nat where "TASK_NAME_MAX = 32"

text \<open>The registers of \<open>cpu_state_t\<close> that task.c writes; the others stay 0 and are not read.\<close>

record cpu_state =
  rsp :: u64
  rbp :: u64
  rip :: u64
  rflags :: u64
  cs :: u64
  ds :: u64
  es :: u64
  fs :: u64
  gs :: u64
  ss :: u64
  cr3 :: u64

text \<open>
  The task control block \<open>task_t\<close>, with the fields that task.c reads or writes, each under
  its source name with the prefix \<open>t_\<close>. The fields left out (\<open>heap_start\<close>, \<open>heap_end\<close>,
  \<open>wait_object\<close>, \<open>wait_result\<close>, the descriptor and signal tables, \<open>page_fault_count\<close>) are
  cleared at creation and never touched again. \<open>t_next\<close> and \<open>t_prev\<close> are the one pair of
  link fields that both the global task list and the ready queues use.
\<close>

record task =
  t_id :: u32
  t_name :: string
  t_state :: task_state
  t_priority :: nat
  t_flags :: u32
  t_cpu_state :: cpu_state
  t_fpu_state :: addr
  t_stack_base :: addr
  t_stack_size :: u64
  t_page_directory :: u64
  t_creation_time :: u64
  t_cpu_time :: u64
  t_last_run :: u64
  t_time_slice :: u32
  t_time_slice_remaining :: u32
  t_parent :: addr
  t_next :: addr
  t_prev :: addr
  t_sleep_until :: u64
  t_exit_code :: u32
  t_context_switch_count :: u64

record scheduler_stats =
  total_tasks :: u32
  running_tasks :: u32
  ready_tasks :: u32
  blocked_tasks :: u32
  context_switches :: u32
  idle_time :: u64
  total_cpu_time :: u64

record spinlock =
  locked :: u32
  owner :: u32
  count :: u32
  recursion_count :: u32

text \<open>What \<open>memset(p, 0, sizeof ...)\<close> leaves in a TCB and in the statistics.\<close>

definition zero_cpu_state :: cpu_state where
  "zero_cpu_state =
     \<lparr> rsp = 0, rbp = 0, rip = 0, rflags = 0, cs = 0, ds = 0, es = 0, fs = 0, gs = 0, ss = 0,
       cr3 = 0 \<rparr>"

definition zero_task :: task where
  "zero_task =
     \<lparr> t_id = 0, t_name = [], t_state = TASK_RUNNING, t_priority = 0, t_flags = 0,
       t_cpu_state = zero_cpu_state, t_fpu_state = NULL, t_stack_base = NULL, t_stack_size = 0,
       t_page_directory = 0, t_creation_time = 0, t_cpu_time = 0, t_last_run = 0,
       t_time_slice = 0, t_time_slice_remaining = 0, t_parent = NULL, t_next = NULL,
       t_prev = NULL, t_sleep_until = 0, t_exit_code = 0, t_context_switch_count = 0 \<rparr>"

definition zero_stats :: scheduler_stats where
  "zero_stats =
     \<lparr> total_tasks = 0, running_tasks = 0, ready_tasks = 0, blocked_tasks = 0,
       context_switches = 0, idle_time = 0, total_cpu_time = 0 \<rparr>"

definition zero_lock :: spinlock where
  "zero_lock = \<lparr> locked = 0, owner = 0, count = 0, recursion_count = 0 \<rparr>"

subsection \<open>State\<close>

text \<open>
  What the build and the platform fix and the sources do not show: the sizes of the
  structures, the addresses of the static idle TCB, of its stack and of the function
  \<open>idle_task\<close>, the value of \<open>get_kernel_page_directory()\<close> and of \<open>timer_get_frequency()\<close>.
\<close>

record platform =
  sizeof_heap_block_t :: u64
  sizeof_task_t :: u64
  sizeof_fpu_state_t :: u64
  idle_task_tcb :: addr
  idle_task_stack :: addr
  idle_task_entry :: addr
  kernel_page_directory :: u64
  timer_frequency :: u32

text \<open>
  The file-level variables of task.c, the tick counter of timer.c, the memory manager, and
  the memory read as TCBs: \<open>tasks\<close> maps an address to the TCB stored there.
\<close>

record kernel =
  mem :: mm
  ticks :: u64
  tasks :: "addr \<Rightarrow> task"
  task_list_head_ptr :: addr
  current_task :: addr
  next_task_id :: u32
  stats :: scheduler_stats
  task_list_lock :: spinlock
  scheduler_lock :: spinlock
  scheduler_quantum :: u32
  ready_queues :: "nat \<Rightarrow> addr"

definition kernel_boot :: "mm \<Rightarrow> (addr \<Rightarrow> task) \<Rightarrow> kernel" where
  "kernel_boot m ts =
     \<lparr> mem = m, ticks = 0, tasks = ts, task_list_head_ptr = NULL, current_task = NULL,
       next_task_id = 1, stats = zero_stats, task_list_lock = zero_lock,
       scheduler_lock = zero_lock, scheduler_quantum = 50, ready_queues = (\<lambda>_. NULL) \<rparr>"

text \<open>One assignment through a task pointer, \<open>p->field = v\<close>.\<close>

definition store_tcb :: "addr \<Rightarrow> (task \<Rightarrow> task) \<Rightarrow> kernel \<Rightarrow> kernel" where
  "store_tcb p f s = s\<lparr>tasks := (tasks s)(p := f (tasks s p))\<rparr>"

definition task_get_current :: "kernel \<Rightarrow> addr" where
  "task_get_current s = current_task s"

definition task_get_current_id :: "kernel \<Rightarrow> u32" where
  "task_get_current_id s =
     (if current_task s \<noteq> NULL then t_id (tasks s (current_task s)) else 0)"

definition timer_get_ticks :: "kernel \<Rightarrow> u64" where
  "timer_get_ticks s = ticks s"

definition timer_callback :: "kernel \<Rightarrow> kernel" where
  "timer_callback s = s\<lparr>ticks := ticks s + 1\<rparr>"

subsection \<open>Spinlocks\<close>

text \<open>
  task.c has two spinlock objects. A pointer to a spinlock is \<open>Some\<close> of one of them, or
  \<open>None\<close> for \<open>NULL\<close>.
\<close>

datatype lock_ref = TaskListLock | SchedulerLock

definition get_lock :: "lock_ref \<Rightarrow> kernel \<Rightarrow> spinlock" where
  "get_lock r s = (case r of TaskListLock \<Rightarrow> task_list_lock s | SchedulerLock \<Rightarrow> scheduler_lock s)"

definition put_lock :: "lock_ref \<Rightarrow> kernel \<Rightarrow> spinlock \<Rightarrow> kernel" where
  "put_lock r s l =
     (case r of TaskListLock \<Rightarrow> s\<lparr>task_list_lock := l\<rparr> | SchedulerLock \<Rightarrow> s\<lparr>scheduler_lock := l\<rparr>)"

definition spinlock_init :: "lock_ref option \<Rightarrow> kernel \<Rightarrow> kernel" where
  "spinlock_init lock s =
     (case lock of
        None \<Rightarrow> s
      | Some r \<Rightarrow> put_lock r s \<lparr> locked = 0, owner = 0, count = 0, recursion_count = 0 \<rparr>)"

text \<open>
  The two nested loops of \<open>spinlock_acquire\<close>. The code runs on one core and the model runs
  one call at a time, so nothing clears \<open>locked\<close> while a loop waits for it: the inner loop
  \<open>while (lock->locked)\<close> ends only if the flag is 0 already. A loop that never ends is
  \<open>None\<close>. \<open>__sync_lock_test_and_set(&lock->locked, 1)\<close> stores 1 and yields the old value.
\<close>

partial_function (option) spin_while_locked :: "spinlock \<Rightarrow> spinlock option" where
  "spin_while_locked l = (if locked l \<noteq> 0 then spin_while_locked l else Some l)"

partial_function (option) spin_test_and_set :: "spinlock \<Rightarrow> spinlock option" where
  "spin_test_and_set l =
     (if locked l \<noteq> 0
      then do { l1 \<leftarrow> spin_while_locked (l\<lparr>locked := 1\<rparr>); spin_test_and_set l1 }
      else Some (l\<lparr>locked := 1\<rparr>))"

definition spinlock_acquire :: "lock_ref option \<Rightarrow> kernel \<Rightarrow> kernel option" where
  "spinlock_acquire lock s =
     (case lock of
        None \<Rightarrow> Some s
      | Some r \<Rightarrow> do {
          l1 \<leftarrow> spin_test_and_set (get_lock r s);
          let l2 = l1\<lparr>owner := task_get_current_id s\<rparr>;
          Some (put_lock r s (l2\<lparr>count := count l2 + 1\<rparr>))
        })"

definition spinlock_release :: "lock_ref option \<Rightarrow> kernel \<Rightarrow> kernel" where
  "spinlock_release lock s =
     (case lock of
        None \<Rightarrow> s
      | Some r \<Rightarrow>
          if owner (get_lock r s) \<noteq> task_get_current_id s then s
          else (let l1 = (get_lock r s)\<lparr>owner := 0\<rparr>
                in put_lock r s (l1\<lparr>locked := 0\<rparr>)))"

definition spinlock_try_acquire :: "lock_ref option \<Rightarrow> kernel \<Rightarrow> kernel \<times> bool" where
  "spinlock_try_acquire lock s =
     (case lock of
        None \<Rightarrow> (s, False)
      | Some r \<Rightarrow>
          (let old = locked (get_lock r s);
               l1 = (get_lock r s)\<lparr>locked := 1\<rparr>
           in if old = 0
              then (let l2 = l1\<lparr>owner := task_get_current_id s\<rparr>
                    in (put_lock r s (l2\<lparr>count := count l2 + 1\<rparr>), True))
              else (put_lock r s l1, False)))"

definition spinlock_is_held :: "lock_ref option \<Rightarrow> kernel \<Rightarrow> bool" where
  "spinlock_is_held lock s =
     (case lock of None \<Rightarrow> False | Some r \<Rightarrow> locked (get_lock r s) \<noteq> 0)"

subsection \<open>Global task list and ready queues\<close>

text \<open>
  Every function that can fail to return (a spin loop that never ends, a list walk that
  never ends, \<open>kernel_panic\<close>, which halts) has an \<open>option\<close> result: \<open>None\<close> is a call that
  never returns to its caller, \<open>Some\<close> carries the state at the return and, for a function
  that is not \<open>void\<close>, the pair of that state and the returned value.
\<close>

definition task_list_add :: "addr \<Rightarrow> kernel \<Rightarrow> kernel option" where
  "task_list_add task s =
     (if task = NULL then Some s
      else do {
        s1 \<leftarrow> spinlock_acquire (Some TaskListLock) s;
        let s2 = store_tcb task (\<lambda>t. t\<lparr>t_next := task_list_head_ptr s1\<rparr>) s1;
        let s3 = store_tcb task (\<lambda>t. t\<lparr>t_prev := NULL\<rparr>) s2;
        let s4 = (if task_list_head_ptr s3 \<noteq> NULL
                  then store_tcb (task_list_head_ptr s3) (\<lambda>t. t\<lparr>t_prev := task\<rparr>) s3
                  else s3);
        let s5 = s4\<lparr>task_list_head_ptr := task\<rparr>;
        Some (spinlock_release (Some TaskListLock) s5)
      })"

definition task_list_remove :: "addr \<Rightarrow> kernel \<Rightarrow> kernel option" where
  "task_list_remove task s =
     (if task = NULL then Some s
      else do {
        s1 \<leftarrow> spinlock_acquire (Some TaskListLock) s;
        let s2 = (if t_prev (tasks s1 task) \<noteq> NULL
                  then store_tcb (t_prev (tasks s1 task))
                         (\<lambda>t. t\<lparr>t_next := t_next (tasks s1 task)\<rparr>) s1
                  else s1\<lparr>task_list_head_ptr := t_next (tasks s1 task)\<rparr>);
        let s3 = (if t_next (tasks s2 task) \<noteq> NULL
                  then store_tcb (t_next (tasks s2 task))
                         (\<lambda>t. t\<lparr>t_prev := t_prev (tasks s2 task)\<rparr>) s2
                  else s2);
        let s4 = store_tcb task (\<lambda>t. t\<lparr>t_next := NULL\<rparr>) s3;
        let s5 = store_tcb task (\<lambda>t. t\<lparr>t_prev := NULL\<rparr>) s4;
        Some (spinlock_release (Some TaskListLock) s5)
      })"

text \<open>The loop \<open>while (task)\<close> of \<open>task_get_by_id\<close>; \<open>Some NULL\<close> is the end of the list.\<close>

partial_function (option) task_list_find :: "u32 \<Rightarrow> addr \<Rightarrow> kernel \<Rightarrow> addr option" where
  "task_list_find task_id task s =
     (if task \<noteq> NULL
      then (if t_id (tasks s task) = task_id then Some task
            else task_list_find task_id (t_next (tasks s task)) s)
      else Some NULL)"

definition task_get_by_id :: "u32 \<Rightarrow> kernel \<Rightarrow> (kernel \<times> addr) option" where
  "task_get_by_id task_id s =
     do {
       s1 \<leftarrow> spinlock_acquire (Some TaskListLock) s;
       task \<leftarrow> task_list_find task_id (task_list_head_ptr s1) s1;
       Some (spinlock_release (Some TaskListLock) s1, task)
     }"

definition add_to_ready_queue :: "addr \<Rightarrow> kernel \<Rightarrow> kernel option" where
  "add_to_ready_queue task s =
     (if task = NULL \<or> t_priority (tasks s task) > PRIORITY_CRITICAL then Some s
      else do {
        s1 \<leftarrow> spinlock_acquire (Some SchedulerLock) s;
        let s2 = store_tcb task
                   (\<lambda>t. t\<lparr>t_next := ready_queues s1 (t_priority (tasks s1 task))\<rparr>) s1;
        let s3 = (if ready_queues s2 (t_priority (tasks s2 task)) \<noteq> NULL
                  then store_tcb (ready_queues s2 (t_priority (tasks s2 task)))
                         (\<lambda>t. t\<lparr>t_prev := task\<rparr>) s2
                  else s2);
        let s4 = s3\<lparr>ready_queues := (ready_queues s3)(t_priority (tasks s3 task) := task)\<rparr>;
        let s5 = store_tcb task (\<lambda>t. t\<lparr>t_prev := NULL\<rparr>) s4;
        Some (spinlock_release (Some SchedulerLock) s5)
      })"

definition remove_from_ready_queue :: "addr \<Rightarrow> kernel \<Rightarrow> kernel option" where
  "remove_from_ready_queue task s =
     (if task = NULL \<or> t_priority (tasks s task) > PRIORITY_CRITICAL then Some s
      else do {
        s1 \<leftarrow> spinlock_acquire (Some SchedulerLock) s;
        let s2 = (if t_prev (tasks s1 task) \<noteq> NULL
                  then store_tcb (t_prev (tasks s1 task))
                         (\<lambda>t. t\<lparr>t_next := t_next (tasks s1 task)\<rparr>) s1
                  else s1\<lparr>ready_queues :=
                         (ready_queues s1)(t_priority (tasks s1 task) := t_next (tasks s1 task))\<rparr>);
        let s3 = (if t_next (tasks s2 task) \<noteq> NULL
                  then store_tcb (t_next (tasks s2 task))
                         (\<lambda>t. t\<lparr>t_prev := t_prev (tasks s2 task)\<rparr>) s2
                  else s2);
        let s4 = store_tcb task (\<lambda>t. t\<lparr>t_next := NULL\<rparr>) s3;
        let s5 = store_tcb task (\<lambda>t. t\<lparr>t_prev := NULL\<rparr>) s4;
        Some (spinlock_release (Some SchedulerLock) s5)
      })"

definition scheduler_add_task :: "addr \<Rightarrow> kernel \<Rightarrow> kernel option" where
  "scheduler_add_task task s = (if task = NULL then Some s else add_to_ready_queue task s)"

definition scheduler_remove_task :: "addr \<Rightarrow> kernel \<Rightarrow> kernel option" where
  "scheduler_remove_task task s = (if task = NULL then Some s else remove_from_ready_queue task s)"

subsection \<open>Selection and switch\<close>

text \<open>
  The loop \<open>for (priority = PRIORITY_CRITICAL; priority >= PRIORITY_IDLE; priority--)\<close> of
  \<open>find_next_ready_task\<close> visits the five levels in the order of the list below.
\<close>

fun first_ready :: "nat list \<Rightarrow> kernel \<Rightarrow> addr" where
  "first_ready [] s = NULL"
| "first_ready (priority # ps) s =
     (if ready_queues s priority \<noteq> NULL then ready_queues s priority else first_ready ps s)"

definition find_next_ready_task :: "kernel \<Rightarrow> addr" where
  "find_next_ready_task s =
     first_ready
       [PRIORITY_CRITICAL, PRIORITY_HIGH, PRIORITY_NORMAL, PRIORITY_LOW, PRIORITY_IDLE] s"

text \<open>
  \<open>context_switch\<close> is the assembly primitive that saves the live registers and loads the
  saved ones; the model keeps no live registers, so the two calls at the end of
  \<open>schedule_next_task\<close> leave the state as it is. \<open>kernel_panic\<close> halts the machine.
\<close>

definition schedule_next_task :: "kernel \<Rightarrow> kernel option" where
  "schedule_next_task s =
     (let next_task = find_next_ready_task s
      in if next_task = NULL then None
         else if next_task = current_task s \<and> t_state (tasks s (current_task s)) = TASK_RUNNING
         then Some s
         else (let old_task = current_task s;
                   s1 = (if old_task \<noteq> NULL \<and> t_state (tasks s old_task) = TASK_RUNNING
                         then store_tcb old_task (\<lambda>t. t\<lparr>t_state := TASK_READY\<rparr>) s
                         else s);
                   s2 = s1\<lparr>current_task := next_task\<rparr>;
                   s3 = store_tcb (current_task s2) (\<lambda>t. t\<lparr>t_state := TASK_RUNNING\<rparr>) s2;
                   s4 = store_tcb (current_task s3) (\<lambda>t. t\<lparr>t_last_run := timer_get_ticks s3\<rparr>) s3;
                   s5 = store_tcb (current_task s4)
                          (\<lambda>t. t\<lparr>t_context_switch_count := t_context_switch_count t + 1\<rparr>) s4
               in Some (s5\<lparr>stats := (stats s5)\<lparr>context_switches :=
                                context_switches (stats s5) + 1\<rparr>\<rparr>)))"

definition task_yield :: "kernel \<Rightarrow> kernel option" where
  "task_yield s =
     (if current_task s = NULL then Some s
      else schedule_next_task
             (store_tcb (current_task s)
                (\<lambda>t. t\<lparr>t_time_slice_remaining := t_time_slice t\<rparr>) s))"

subsection \<open>Timer tick\<close>

text \<open>
  The wake-up loop of \<open>scheduler_tick\<close> over the global task list. It reads \<open>task->next\<close>
  after the body, which may have re-linked the task into a ready queue.
\<close>

definition wake_task :: "addr \<Rightarrow> kernel \<Rightarrow> kernel option" where
  "wake_task task s =
     do {
       let s1 = store_tcb task (\<lambda>t. t\<lparr>t_sleep_until := 0\<rparr>) s;
       let s2 = store_tcb task (\<lambda>t. t\<lparr>t_state := TASK_READY\<rparr>) s1;
       s3 \<leftarrow> add_to_ready_queue task s2;
       s4 \<leftarrow> spinlock_acquire (Some SchedulerLock) s3;
       let s5 = s4\<lparr>stats := (stats s4)\<lparr>blocked_tasks := blocked_tasks (stats s4) - 1\<rparr>\<rparr>;
       let s6 = s5\<lparr>stats := (stats s5)\<lparr>ready_tasks := ready_tasks (stats s5) + 1\<rparr>\<rparr>;
       Some (spinlock_release (Some SchedulerLock) s6)
     }"

partial_function (option) wake_sleepers :: "u64 \<Rightarrow> addr \<Rightarrow> kernel \<Rightarrow> kernel option" where
  "wake_sleepers current_ticks task s =
     (if task \<noteq> NULL
      then do {
        s1 \<leftarrow> (if t_state (tasks s task) = TASK_BLOCKED \<and> t_sleep_until (tasks s task) > 0
               then (if current_ticks \<ge> t_sleep_until (tasks s task) then wake_task task s
                     else Some s)
               else Some s);
        wake_sleepers current_ticks (t_next (tasks s1 task)) s1
      }
      else Some s)"

text \<open>The condition of the \<open>if\<close> that ends \<open>scheduler_tick\<close>: the decision to reschedule.\<close>

definition preempt_condition :: "kernel \<Rightarrow> bool" where
  "preempt_condition s =
     (t_time_slice_remaining (tasks s (current_task s)) = 0 \<or>
      (ready_queues s PRIORITY_CRITICAL \<noteq> NULL \<and>
         t_priority (tasks s (current_task s)) < PRIORITY_CRITICAL) \<or>
      (ready_queues s PRIORITY_HIGH \<noteq> NULL \<and>
         t_priority (tasks s (current_task s)) < PRIORITY_HIGH))"

definition scheduler_tick :: "kernel \<Rightarrow> kernel option" where
  "scheduler_tick s =
     (if current_task s = NULL then Some s
      else do {
        let s1 = store_tcb (current_task s) (\<lambda>t. t\<lparr>t_cpu_time := t_cpu_time t + 1\<rparr>) s;
        let s2 = s1\<lparr>stats := (stats s1)\<lparr>total_cpu_time := total_cpu_time (stats s1) + 1\<rparr>\<rparr>;
        let current_ticks = timer_get_ticks s2;
        s3 \<leftarrow> spinlock_acquire (Some TaskListLock) s2;
        s4 \<leftarrow> wake_sleepers current_ticks (task_list_head_ptr s3) s3;
        let s5 = spinlock_release (Some TaskListLock) s4;
        let s6 = (if t_time_slice_remaining (tasks s5 (current_task s5)) > 0
                  then store_tcb (current_task s5)
                         (\<lambda>t. t\<lparr>t_time_slice_remaining := t_time_slice_remaining t - 1\<rparr>) s5
                  else s5);
        if preempt_condition s6
        then schedule_next_task
               (store_tcb (current_task s6)
                  (\<lambda>t. t\<lparr>t_time_slice_remaining := t_time_slice t\<rparr>) s6)
        else Some s6
      })"

subsection \<open>Task memory\<close>

text \<open>The heap functions of mm.c on the kernel state, with the platform's header size.\<close>

definition heap_alloc :: "platform \<Rightarrow> u64 \<Rightarrow> kernel \<Rightarrow> (kernel \<times> addr) option" where
  "heap_alloc P sz s =
     do { (m, p) \<leftarrow> kmalloc (sizeof_heap_block_t P) sz (mem s); Some (s\<lparr>mem := m\<rparr>, p) }"

definition heap_free :: "platform \<Rightarrow> addr \<Rightarrow> kernel \<Rightarrow> kernel" where
  "heap_free P ptr s = s\<lparr>mem := kfree (sizeof_heap_block_t P) ptr (mem s)\<rparr>"

definition task_alloc_stack :: "platform \<Rightarrow> addr \<Rightarrow> u64 \<Rightarrow> kernel \<Rightarrow> (kernel \<times> int) option" where
  "task_alloc_stack P task sz s =
     (if task = NULL \<or> sz = 0 then Some (s, - 1)
      else do {
        (s1, p) \<leftarrow> heap_alloc P sz s;
        let s2 = store_tcb task (\<lambda>t. t\<lparr>t_stack_base := p\<rparr>) s1;
        if t_stack_base (tasks s2 task) = NULL then Some (s2, - 1)
        else Some (store_tcb task (\<lambda>t. t\<lparr>t_stack_size := sz\<rparr>) s2, 0)
      })"

definition task_free_stack :: "platform \<Rightarrow> addr \<Rightarrow> kernel \<Rightarrow> kernel" where
  "task_free_stack P task s =
     (if task \<noteq> NULL \<and> t_stack_base (tasks s task) \<noteq> NULL
      then (let s1 = heap_free P (t_stack_base (tasks s task)) s;
                s2 = store_tcb task (\<lambda>t. t\<lparr>t_stack_base := NULL\<rparr>) s1
            in store_tcb task (\<lambda>t. t\<lparr>t_stack_size := 0\<rparr>) s2)
      else s)"

definition task_setup_memory :: "platform \<Rightarrow> addr \<Rightarrow> kernel \<Rightarrow> kernel \<times> int" where
  "task_setup_memory P task s =
     (if task = NULL then (s, - 1)
      else (if t_flags (tasks s task) AND TASK_FLAG_USER \<noteq> 0
            then store_tcb task (\<lambda>t. t\<lparr>t_page_directory := kernel_page_directory P\<rparr>) s
            else store_tcb task (\<lambda>t. t\<lparr>t_page_directory := kernel_page_directory P\<rparr>) s, 0))"

definition task_cleanup_memory :: "addr \<Rightarrow> kernel \<Rightarrow> kernel" where
  "task_cleanup_memory task s =
     (if task = NULL then s else store_tcb task (\<lambda>t. t\<lparr>t_page_directory := 0\<rparr>) s)"

definition store_cpu :: "addr \<Rightarrow> (cpu_state \<Rightarrow> cpu_state) \<Rightarrow> kernel \<Rightarrow> kernel" where
  "store_cpu task f s = store_tcb task (\<lambda>t. t\<lparr>t_cpu_state := f (t_cpu_state t)\<rparr>) s"

definition init_task_cpu_state :: "platform \<Rightarrow> addr \<Rightarrow> addr \<Rightarrow> kernel \<Rightarrow> kernel \<times> int" where
  "init_task_cpu_state P task entry_point s =
     (let s1 = store_cpu task (\<lambda>_. zero_cpu_state) s;
          s2 = store_cpu task
                 (\<lambda>c. c\<lparr>rsp := t_stack_base (tasks s1 task) + t_stack_size (tasks s1 task) - 16\<rparr>) s1;
          s3 = store_cpu task (\<lambda>c. c\<lparr>rbp := rsp c\<rparr>) s2;
          s4 = store_cpu task (\<lambda>c. c\<lparr>rip := entry_point\<rparr>) s3;
          s5 = (if t_flags (tasks s4 task) AND TASK_FLAG_USER \<noteq> 0
                then store_cpu task
                       (\<lambda>c. c\<lparr>cs := 0x1B, ds := 0x23, es := 0x23, fs := 0x23, gs := 0x23,
                              ss := 0x23\<rparr>) s4
                else store_cpu task
                       (\<lambda>c. c\<lparr>cs := 0x08, ds := 0x10, es := 0x10, fs := 0x10, gs := 0x10,
                              ss := 0x10\<rparr>) s4);
          s6 = store_cpu task (\<lambda>c. c\<lparr>rflags := 0x200\<rparr>) s5;
          s7 = (if t_parent (tasks s6 task) \<noteq> NULL \<and>
                   t_page_directory (tasks s6 (t_parent (tasks s6 task))) \<noteq> 0
                then store_cpu task
                       (\<lambda>c. c\<lparr>cr3 := t_page_directory (tasks s6 (t_parent (tasks s6 task)))\<rparr>) s6
                else store_cpu task (\<lambda>c. c\<lparr>cr3 := kernel_page_directory P\<rparr>) s6)
      in (store_tcb task (\<lambda>t. t\<lparr>t_page_directory := cr3 (t_cpu_state t)\<rparr>) s7, 0))"

subsection \<open>Task life cycle\<close>

text \<open>
  \<open>task_init\<close>; \<open>fpu_init\<close> is an external primitive without effect on this state. The
  result is the state and the returned \<open>int\<close>.
\<close>

definition task_init :: "platform \<Rightarrow> kernel \<Rightarrow> (kernel \<times> int) option" where
  "task_init P s =
     (let idle = idle_task_tcb P;
          s1 = spinlock_init (Some TaskListLock) s;
          s2 = spinlock_init (Some SchedulerLock) s1;
          s3 = s2\<lparr>stats := zero_stats\<rparr>;
          s4 = s3\<lparr>tasks := (tasks s3)(idle := zero_task)\<rparr>;
          s5 = store_tcb idle (\<lambda>t. t\<lparr>t_id := 0\<rparr>) s4;
          s6 = store_tcb idle (\<lambda>t. t\<lparr>t_name := take (TASK_NAME_MAX - 1) ''idle''\<rparr>) s5;
          s7 = store_tcb idle (\<lambda>t. t\<lparr>t_state := TASK_READY\<rparr>) s6;
          s8 = store_tcb idle (\<lambda>t. t\<lparr>t_priority := PRIORITY_IDLE\<rparr>) s7;
          s9 = store_tcb idle (\<lambda>t. t\<lparr>t_flags := TASK_FLAG_KERNEL OR TASK_FLAG_SYSTEM\<rparr>) s8;
          s10 = store_tcb idle (\<lambda>t. t\<lparr>t_stack_base := idle_task_stack P\<rparr>) s9;
          s11 = store_tcb idle (\<lambda>t. t\<lparr>t_stack_size := TASK_STACK_SIZE\<rparr>) s10;
          s12 = store_tcb idle (\<lambda>t. t\<lparr>t_time_slice := scheduler_quantum s11\<rparr>) s11;
          s13 = store_tcb idle (\<lambda>t. t\<lparr>t_time_slice_remaining := scheduler_quantum s12\<rparr>) s12;
          s14 = store_tcb idle (\<lambda>t. t\<lparr>t_creation_time := timer_get_ticks s13\<rparr>) s13;
          (s15, rc) = init_task_cpu_state P idle (idle_task_entry P) s14
      in if rc \<noteq> 0 then Some (s15, - 1)
         else do {
           s16 \<leftarrow> task_list_add idle s15;
           s17 \<leftarrow> add_to_ready_queue idle s16;
           Some (s17\<lparr>current_task := idle\<rparr>, 0)
         })"

text \<open>
  \<open>task_create\<close>. The name is \<open>None\<close> for a \<open>NULL\<close> pointer and \<open>Some\<close> of the characters before
  the terminating 0 otherwise; the entry point is the address of the function.
\<close>

definition task_create ::
    "platform \<Rightarrow> string option \<Rightarrow> addr \<Rightarrow> nat \<Rightarrow> u32 \<Rightarrow> kernel \<Rightarrow> (kernel \<times> u32) option" where
  "task_create P name entry_point priority flags s =
     (if name = None \<or> entry_point = NULL then Some (s, 0)
      else do {
        (s1, task) \<leftarrow> heap_alloc P (sizeof_task_t P) s;
        if task = NULL then Some (s1, 0)
        else do {
          let s2 = s1\<lparr>tasks := (tasks s1)(task := zero_task)\<rparr>;
          s3 \<leftarrow> spinlock_acquire (Some TaskListLock) s2;
          let s4 = store_tcb task (\<lambda>t. t\<lparr>t_id := next_task_id s3\<rparr>) s3;
          let s5 = s4\<lparr>next_task_id := next_task_id s4 + 1\<rparr>;
          let s6 = spinlock_release (Some TaskListLock) s5;
          let s7 = store_tcb task (\<lambda>t. t\<lparr>t_name := take (TASK_NAME_MAX - 1) (the name)\<rparr>) s6;
          let s8 = store_tcb task (\<lambda>t. t\<lparr>t_state := TASK_READY\<rparr>) s7;
          let s9 = store_tcb task (\<lambda>t. t\<lparr>t_priority := priority\<rparr>) s8;
          let s10 = store_tcb task (\<lambda>t. t\<lparr>t_flags := flags\<rparr>) s9;
          let s11 = store_tcb task (\<lambda>t. t\<lparr>t_parent := current_task s10\<rparr>) s10;
          let s12 = store_tcb task (\<lambda>t. t\<lparr>t_time_slice := scheduler_quantum s11\<rparr>) s11;
          let s13 = store_tcb task (\<lambda>t. t\<lparr>t_time_slice_remaining := scheduler_quantum s12\<rparr>) s12;
          let s14 = store_tcb task (\<lambda>t. t\<lparr>t_creation_time := timer_get_ticks s13\<rparr>) s13;
          let s15 = store_tcb task (\<lambda>t. t\<lparr>t_exit_code := 0\<rparr>) s14;
          (s16, rc1) \<leftarrow> task_alloc_stack P task TASK_STACK_SIZE s15;
          if rc1 \<noteq> 0 then Some (heap_free P task s16, 0)
          else do {
            let (s17, rc2) = init_task_cpu_state P task entry_point s16;
            if rc2 \<noteq> 0 then Some (heap_free P task (task_free_stack P task s17), 0)
            else do {
              let (s18, rc3) = task_setup_memory P task s17;
              if rc3 \<noteq> 0 then Some (heap_free P task (task_free_stack P task s18), 0)
              else do {
                s19 \<leftarrow> task_list_add task s18;
                s20 \<leftarrow> scheduler_add_task task s19;
                s21 \<leftarrow> spinlock_acquire (Some SchedulerLock) s20;
                let s22 = s21\<lparr>stats := (stats s21)\<lparr>total_tasks := total_tasks (stats s21) + 1\<rparr>\<rparr>;
                let s23 = s22\<lparr>stats := (stats s22)\<lparr>ready_tasks := ready_tasks (stats s22) + 1\<rparr>\<rparr>;
                let s24 = spinlock_release (Some SchedulerLock) s23;
                Some (s24, t_id (tasks s24 task))
              }
            }
          }
        }
      })"

definition kernel_task_create :: "platform \<Rightarrow> string option \<Rightarrow> addr \<Rightarrow> kernel \<Rightarrow> (kernel \<times> int) option" where
  "kernel_task_create P name entry_point s =
     do {
       (s1, tid) \<leftarrow> task_create P name entry_point PRIORITY_NORMAL
                      (TASK_FLAG_KERNEL OR TASK_FLAG_SYSTEM) s;
       Some (s1, if tid \<noteq> 0 then 0 else - 1)
     }"

definition task_destroy :: "platform \<Rightarrow> u32 \<Rightarrow> kernel \<Rightarrow> (kernel \<times> int) option" where
  "task_destroy P task_id s =
     do {
       (s1, task) \<leftarrow> task_get_by_id task_id s;
       if task = NULL \<or> t_id (tasks s1 task) = 0 then Some (s1, - 1)
       else do {
         s2 \<leftarrow> scheduler_remove_task task s1;
         let s3 = task_cleanup_memory task s2;
         let s4 = task_free_stack P task s3;
         let s5 = (if t_fpu_state (tasks s4 task) \<noteq> NULL
                   then heap_free P (t_fpu_state (tasks s4 task)) s4 else s4);
         s6 \<leftarrow> task_list_remove task s5;
         s7 \<leftarrow> spinlock_acquire (Some SchedulerLock) s6;
         let s8 = s7\<lparr>stats := (stats s7)\<lparr>total_tasks := total_tasks (stats s7) - 1\<rparr>\<rparr>;
         let s9 = spinlock_release (Some SchedulerLock) s8;
         Some (heap_free P task s9, 0)
       }
     }"

definition task_suspend :: "u32 \<Rightarrow> kernel \<Rightarrow> (kernel \<times> int) option" where
  "task_suspend task_id s =
     do {
       (s1, task) \<leftarrow> task_get_by_id task_id s;
       if task = NULL \<or> t_id (tasks s1 task) = 0 then Some (s1, - 1)
       else do {
         s2 \<leftarrow> spinlock_acquire (Some SchedulerLock) s1;
         s3 \<leftarrow> (if t_state (tasks s2 task) = TASK_RUNNING \<or> t_state (tasks s2 task) = TASK_READY
                then do {
                  sa \<leftarrow> remove_from_ready_queue task
                          (store_tcb task (\<lambda>t. t\<lparr>t_state := TASK_SUSPENDED\<rparr>) s2);
                  Some (sa\<lparr>stats := (stats sa)\<lparr>ready_tasks := ready_tasks (stats sa) - 1\<rparr>\<rparr>)
                }
                else Some s2);
         let s4 = spinlock_release (Some SchedulerLock) s3;
         s5 \<leftarrow> (if task = current_task s4 then task_yield s4 else Some s4);
         Some (s5, 0)
       }
     }"

definition task_resume :: "u32 \<Rightarrow> kernel \<Rightarrow> (kernel \<times> int) option" where
  "task_resume task_id s =
     do {
       (s1, task) \<leftarrow> task_get_by_id task_id s;
       if task = NULL \<or> t_state (tasks s1 task) \<noteq> TASK_SUSPENDED then Some (s1, - 1)
       else do {
         s2 \<leftarrow> spinlock_acquire (Some SchedulerLock) s1;
         s3 \<leftarrow> add_to_ready_queue task (store_tcb task (\<lambda>t. t\<lparr>t_state := TASK_READY\<rparr>) s2);
         let s4 = s3\<lparr>stats := (stats s3)\<lparr>ready_tasks := ready_tasks (stats s3) + 1\<rparr>\<rparr>;
         Some (spinlock_release (Some SchedulerLock) s4, 0)
       }
     }"

definition task_exit :: "u32 \<Rightarrow> kernel \<Rightarrow> kernel option" where
  "task_exit exit_code s =
     (if current_task s = NULL \<or> t_id (tasks s (current_task s)) = 0 then Some s
      else do {
        let s1 = store_tcb (current_task s) (\<lambda>t. t\<lparr>t_exit_code := exit_code\<rparr>) s;
        let s2 = store_tcb (current_task s1) (\<lambda>t. t\<lparr>t_state := TASK_TERMINATED\<rparr>) s1;
        s3 \<leftarrow> spinlock_acquire (Some SchedulerLock) s2;
        s4 \<leftarrow> remove_from_ready_queue (current_task s3) s3;
        let s5 = s4\<lparr>stats := (stats s4)\<lparr>ready_tasks := ready_tasks (stats s4) - 1\<rparr>\<rparr>;
        let s6 = s5\<lparr>stats := (stats s5)\<lparr>running_tasks := running_tasks (stats s5) - 1\<rparr>\<rparr>;
        schedule_next_task (spinlock_release (Some SchedulerLock) s6)
      })"

text \<open>
  \<open>task_sleep\<close>. The product \<open>milliseconds * timer_get_frequency()\<close> is taken as an
  unsigned 32-bit product, the type of \<open>milliseconds\<close>.
\<close>

definition task_sleep :: "platform \<Rightarrow> u32 \<Rightarrow> kernel \<Rightarrow> kernel option" where
  "task_sleep P milliseconds s =
     (if current_task s = NULL \<or> t_id (tasks s (current_task s)) = 0 then Some s
      else do {
        let s1 = store_tcb (current_task s)
                   (\<lambda>t. t\<lparr>t_sleep_until :=
                            timer_get_ticks s + ucast (milliseconds * timer_frequency P div 1000)\<rparr>) s;
        let s2 = store_tcb (current_task s1) (\<lambda>t. t\<lparr>t_state := TASK_BLOCKED\<rparr>) s1;
        s3 \<leftarrow> spinlock_acquire (Some SchedulerLock) s2;
        s4 \<leftarrow> remove_from_ready_queue (current_task s3) s3;
        let s5 = s4\<lparr>stats := (stats s4)\<lparr>ready_tasks := ready_tasks (stats s4) - 1\<rparr>\<rparr>;
        let s6 = s5\<lparr>stats := (stats s5)\<lparr>blocked_tasks := blocked_tasks (stats s5) + 1\<rparr>\<rparr>;
        schedule_next_task (spinlock_release (Some SchedulerLock) s6)
      })"

definition task_set_priority :: "u32 \<Rightarrow> nat \<Rightarrow> kernel \<Rightarrow> (kernel \<times> int) option" where
  "task_set_priority task_id priority s =
     do {
       (s1, task) \<leftarrow> task_get_by_id task_id s;
       if task = NULL \<or> priority > PRIORITY_CRITICAL then Some (s1, - 1)
       else do {
         s2 \<leftarrow> (if t_state (tasks s1 task) = TASK_READY then remove_from_ready_queue task s1
                else Some s1);
         let s3 = store_tcb task (\<lambda>t. t\<lparr>t_priority := priority\<rparr>) s2;
         s4 \<leftarrow> (if t_state (tasks s3 task) = TASK_READY then add_to_ready_queue task s3
                else Some s3);
         Some (s4, 0)
       }
     }"

definition task_get_priority :: "u32 \<Rightarrow> kernel \<Rightarrow> (kernel \<times> nat) option" where
  "task_get_priority task_id s =
     do {
       (s1, task) \<leftarrow> task_get_by_id task_id s;
       Some (s1, if task \<noteq> NULL then t_priority (tasks s1 task) else PRIORITY_IDLE)
     }"

definition task_get_state :: "u32 \<Rightarrow> kernel \<Rightarrow> (kernel \<times> task_state) option" where
  "task_get_state task_id s =
     do {
       (s1, task) \<leftarrow> task_get_by_id task_id s;
       Some (s1, if task \<noteq> NULL then t_state (tasks s1 task) else TASK_TERMINATED)
     }"

definition scheduler_set_quantum :: "u32 \<Rightarrow> kernel \<Rightarrow> kernel \<times> int" where
  "scheduler_set_quantum quantum_ms s =
     (if quantum_ms = 0 \<or> quantum_ms > 1000 then (s, - 1)
      else (s\<lparr>scheduler_quantum := quantum_ms\<rparr>, 0))"

section \<open>A concrete machine\<close>

text \<open>
  The machine on which the concrete runs below are evaluated. The sizes are those of the
  x86-64 ABI: \<open>heap_block_t\<close> has the four fields \<open>size_t size; bool free; next; prev\<close>
  (32 bytes, as \<open>block_t\<close> of mm.h), \<open>task_t\<close> of task.h is 1200 bytes and \<open>fpu_state_t\<close> 512.
  The addresses of the static objects are some addresses below the heap. The heap is the
  region that kernel.c passes to \<open>mm_init\<close>, and all memory is zero at power-up.
\<close>

definition HEAP_BLOCK_SIZE :: u64 where "HEAP_BLOCK_SIZE = 32"
definition KERNEL_HEAP_START :: addr where "KERNEL_HEAP_START = 0x200000"
definition KERNEL_HEAP_SIZE :: u64 where "KERNEL_HEAP_SIZE = 0x100000"

definition demo_platform :: platform where
  "demo_platform =
     \<lparr> sizeof_heap_block_t = HEAP_BLOCK_SIZE, sizeof_task_t = 1200, sizeof_fpu_state_t = 512,
       idle_task_tcb = 0x110000, idle_task_stack = 0x112000, idle_task_entry = 0x101000,
       kernel_page_directory = 0x1000, timer_frequency = 1000 \<rparr>"

definition zero_block :: heap_block where
  "zero_block = \<lparr> hb_size = 0, hb_free = False, hb_next = NULL, hb_prev = NULL \<rparr>"

definition zero_mm :: mm where
  "zero_mm = mm_boot (\<lambda>_. 0) (\<lambda>_. zero_block) (\<lambda>_. 0)"

definition demo_boot :: kernel where
  "demo_boot =
     kernel_boot (mm_init HEAP_BLOCK_SIZE KERNEL_HEAP_START KERNEL_HEAP_SIZE zero_mm)
       (\<lambda>_. zero_task)"

text \<open>A heap of 1024 bytes at the kernel's heap address.\<close>

definition demo_heap :: mm where
  "demo_heap = mm_init HEAP_BLOCK_SIZE KERNEL_HEAP_START 1024 zero_mm"

text \<open>
  The same heap after one allocation of 100 bytes, and a kernel at boot whose heap of
  2048 bytes has room for a TCB but not for a stack.
\<close>

definition demo_heap1 :: mm where
  "demo_heap1 = fst (the (kmalloc HEAP_BLOCK_SIZE 100 demo_heap))"

definition small_boot :: kernel where
  "small_boot =
     kernel_boot (mm_init HEAP_BLOCK_SIZE KERNEL_HEAP_START 2048 zero_mm) (\<lambda>_. zero_task)"

text \<open>
  The heap of 1024 bytes after four allocations of 100 bytes: four blocks of 104 bytes in
  use, one behind the other, and the free remainder behind them.
\<close>

definition packed_heap :: mm where
  "packed_heap =
     fst (the (do {
       (s1, p1) \<leftarrow> kmalloc HEAP_BLOCK_SIZE 100 demo_heap;
       (s2, p2) \<leftarrow> kmalloc HEAP_BLOCK_SIZE 100 s1;
       (s3, p3) \<leftarrow> kmalloc HEAP_BLOCK_SIZE 100 s2;
       kmalloc HEAP_BLOCK_SIZE 100 s3
     }))"

section \<open>Predicates of the statements\<close>

text \<open>
  \<open>unfit_run s sz p xs b\<close>: the first-fit scan for \<open>sz\<close> bytes that starts at the block \<open>p\<close>
  passes exactly the blocks \<open>xs\<close>, none of which is free and large enough, and arrives at
  \<open>b\<close>.
\<close>

fun unfit_run :: "mm \<Rightarrow> u64 \<Rightarrow> addr \<Rightarrow> addr list \<Rightarrow> addr \<Rightarrow> bool" where
  "unfit_run s sz p [] b = (p = b)"
| "unfit_run s sz p (x # xs) b =
     (p = x \<and> x \<noteq> NULL \<and> \<not> (free_of s x \<and> sz \<le> size_of s x) \<and>
      unfit_run s sz (next_of s x) xs b)"

text \<open>
  The block list of the heap. \<open>block_path s p bs q\<close>: following \<open>next\<close> from \<open>p\<close> passes
  exactly the blocks \<open>bs\<close>, none at \<open>NULL\<close>, and arrives at \<open>q\<close>. \<open>back_links s q bs\<close>: the
  \<open>prev\<close> field of every block of \<open>bs\<close> is the block before it, and \<open>q\<close> for the first.
  \<open>block_list s bs\<close>: \<open>bs\<close> is the list that starts at \<open>heap_start\<close> and ends with a \<open>NULL\<close>
  \<open>next\<close>, doubly linked, no block twice. \<open>no_adjacent_free s bs\<close>: no two neighbours in
  \<open>bs\<close> are both free.
\<close>

fun block_path :: "mm \<Rightarrow> addr \<Rightarrow> addr list \<Rightarrow> addr \<Rightarrow> bool" where
  "block_path s p [] q = (p = q)"
| "block_path s p (b # bs) q = (p = b \<and> b \<noteq> NULL \<and> block_path s (next_of s b) bs q)"

fun back_links :: "mm \<Rightarrow> addr \<Rightarrow> addr list \<Rightarrow> bool" where
  "back_links s q [] = True"
| "back_links s q (b # bs) = (prev_of s b = q \<and> back_links s b bs)"

definition block_list :: "mm \<Rightarrow> addr list \<Rightarrow> bool" where
  "block_list s bs =
     (block_path s (heap_start s) bs NULL \<and> back_links s NULL bs \<and> distinct bs)"

fun no_adjacent_free :: "mm \<Rightarrow> addr list \<Rightarrow> bool" where
  "no_adjacent_free s [] = True"
| "no_adjacent_free s [b] = True"
| "no_adjacent_free s (a # b # bs) =
     (\<not> (free_of s a \<and> free_of s b) \<and> no_adjacent_free s (b # bs))"

text \<open>
  \<open>kfree_accepts H ptr s\<close>: \<open>kfree(ptr)\<close> passes its three early returns, that is \<open>ptr\<close> is not
  \<open>NULL\<close>, the heap is initialised and the header address \<open>ptr - H\<close> lies in
  \<open>[heap_start, heap_end)\<close>.
\<close>

definition kfree_accepts :: "u64 \<Rightarrow> addr \<Rightarrow> mm \<Rightarrow> bool" where
  "kfree_accepts H ptr s =
     (ptr \<noteq> NULL \<and> heap_initialized s \<and> heap_start s \<le> ptr - H \<and> ptr - H < heap_end s)"

section \<open>Frame allocator: bitmap size and first allocation\<close>

declare mark_frames_used.simps [simp del] scan_frames.simps [simp del]

lemma frame_index_eq:
  fixes f i :: u64
  shows "f = i \<longleftrightarrow> f div 8 = i div 8 \<and> unat (f mod 8) = unat (i mod 8)"
proof
  assume "f div 8 = i div 8 \<and> unat (f mod 8) = unat (i mod 8)"
  then have d: "f div 8 = i div 8" and m: "f mod 8 = i mod 8"
    by (simp_all add: word_unat_eq_iff)
  have "f = (f div 8) * 8 + f mod 8" by (simp add: word_mod_div_equality)
  also have "\<dots> = (i div 8) * 8 + i mod 8" using d m by simp
  also have "\<dots> = i" by (simp add: word_mod_div_equality)
  finally show "f = i" .
qed simp

lemma bit_mask_test:
  fixes w :: u8
  shows "(w AND push_bit n 1 \<noteq> 0) = bit w n"
  by (simp add: bit_iff_and_push_bit_not_eq_0)

lemma unat_mod8_less: "unat ((f::u64) mod 8) < 8"
  by (simp add: unat_mod_distrib) 

lemma is_frame_used_bit:
  "is_frame_used f s = bit (physical_bitmap s (f div 8)) (unat (f mod 8))"
  unfolding is_frame_used_def Let_def by (rule bit_mask_test)

lemma bitmap_set_frame_used:
  "physical_bitmap (set_frame_used i s) =
     (physical_bitmap s)(i div 8 := physical_bitmap s (i div 8) OR push_bit (unat (i mod 8)) 1)"
  by (simp add: set_frame_used_def Let_def del: push_bit_of_1)

lemma is_frame_used_set:
  "is_frame_used f (set_frame_used i s) \<longleftrightarrow> f = i \<or> is_frame_used f s"
proof (cases "f div 8 = i div 8")
  case False
  then show ?thesis
    by (auto simp: is_frame_used_bit bitmap_set_frame_used)
next
  case True
  have "unat (f mod 8) < 8" by (rule unat_mod8_less)
  then show ?thesis
    using True
    by (auto simp: is_frame_used_bit bitmap_set_frame_used bit_or_iff
        bit_push_bit_iff frame_index_eq [of f i] bit_1_iff simp del: push_bit_of_1)
qed

lemma set_frame_used_fields [simp]:
  "total_memory (set_frame_used i s) = total_memory s"
  "next_free_frame (set_frame_used i s) = next_free_frame s"
  "bitmap_size (set_frame_used i s) = bitmap_size s"
  by (simp_all add: set_frame_used_def Let_def)

lemma mark_frames_used_fields:
  "total_memory (mark_frames_used i n s) = total_memory s \<and>
   next_free_frame (mark_frames_used i n s) = next_free_frame s \<and>
   bitmap_size (mark_frames_used i n s) = bitmap_size s"
proof (induction i n s rule: mark_frames_used.induct)
  case (1 i n s)
  then show ?case
    by (simp add: mark_frames_used.simps [of i n s])
qed

lemma word_succ_le:
  fixes i f n :: u64
  assumes "i < n"
  shows "i + 1 \<le> f \<longleftrightarrow> i < f"
proof -
  have lt: "unat i < unat n"
    using assms by (simp add: word_less_nat_alt)
  moreover have "unat n < 2 ^ 64"
    using unsigned_less [of n, where 'a = nat] by simp
  ultimately have "unat (i + 1) = unat i + 1"
    by (simp add: unat_word_ariths)
  then show ?thesis
    by (auto simp: word_le_nat_alt word_less_nat_alt)
qed

lemma is_frame_used_mark:
  "is_frame_used f (mark_frames_used i n s) \<longleftrightarrow> (i \<le> f \<and> f < n) \<or> is_frame_used f s"
proof (induction i n s rule: mark_frames_used.induct)
  case (1 i n s)
  show ?case
  proof (cases "i < n")
    case True
    then have "is_frame_used f (mark_frames_used i n s)
        \<longleftrightarrow> (i + 1 \<le> f \<and> f < n) \<or> f = i \<or> is_frame_used f s"
      using "1.IH" by (simp add: is_frame_used_set mark_frames_used.simps [of i n s])
    also have "\<dots> \<longleftrightarrow> (i \<le> f \<and> f < n) \<or> is_frame_used f s"
      using True by (auto simp: word_succ_le [OF True])
    finally show ?thesis .
  next
    case False
    then show ?thesis by (auto simp: mark_frames_used.simps [of i n s])
  qed
qed

lemma scan_frames_first:
  "i \<le> k \<Longrightarrow> k < n \<Longrightarrow> \<not> is_frame_used k s \<Longrightarrow>
   (\<And>j. i \<le> j \<Longrightarrow> j < k \<Longrightarrow> is_frame_used j s) \<Longrightarrow> scan_frames i n s = Some k"
proof (induction i n s rule: scan_frames.induct)
  case (1 i n s)
  show ?case
  proof (cases "i = k")
    case True
    with "1.prems" show ?thesis by (simp add: scan_frames.simps [of k n s])
  next
    case False
    with "1.prems" have ik: "i < k" by simp
    then have used: "is_frame_used i s" and "i < n"
      using "1.prems" by auto
    have "scan_frames (i + 1) n s = Some k"
    proof (rule "1.IH")
      show "i < n" by fact
      show "\<not> \<not> is_frame_used i s" using used by simp
      show "i + 1 \<le> k" using ik by (rule inc_le)
      show "k < n" by fact
      show "\<not> is_frame_used k s" by fact
      fix j assume "i + 1 \<le> j" "j < k"
      then show "is_frame_used j s"
        using "1.prems"(4) [of j] word_succ_le [OF \<open>i < n\<close>, of j] by simp
    qed
    with used \<open>i < n\<close> show ?thesis by (simp add: scan_frames.simps [of i n s])
  qed
qed

lemma is_frame_used_memset:
  "f div 8 < n \<Longrightarrow> \<not> is_frame_used f (memset_bitmap n s)"
  by (simp add: is_frame_used_bit memset_bitmap_def)

lemma init_paging_fields:
  "total_memory (init_paging s) = 0x8000000"
  "bitmap_size (init_paging s) = 4096"
  "next_free_frame (init_paging s) = next_free_frame s"
  by (simp_all add: init_paging_def Let_def mark_frames_used_fields memset_bitmap_def PAGE_SIZE_def)

lemma init_paging_used:
  assumes "f < 0x8000"
  shows "is_frame_used f (init_paging s) \<longleftrightarrow> f < 0x400"
proof -
  have "f div 8 < 4096"
    using assms by (simp add: word_less_nat_alt unat_div_distrib)
  then show ?thesis
    by (simp add: init_paging_def Let_def is_frame_used_mark is_frame_used_memset PAGE_SIZE_def)
qed

text \<open>
  Claim C6. After \<open>init_paging\<close> at boot, with 128 MiB of memory and 4096-byte frames, the
  bitmap size is \<open>(128 * 1024 * 1024 / 4096) / 8 = 4096\<close> bytes, and the first \<open>alloc_frame\<close>
  returns the byte address \<open>0x400000\<close>, which is frame \<open>0x400000 / 4096 = 1024\<close>: the frames of
  the first 4 MiB are marked used by \<open>init_paging\<close> (lemma \<open>init_paging_used\<close>). This holds for
  every content of the memory at boot.
\<close>

theorem frame_allocator_arithmetic:
  "bitmap_size (init_paging (mm_boot bm hs bs)) = (128 * 1024 * 1024 div 4096) div 8 \<and>
   bitmap_size (init_paging (mm_boot bm hs bs)) = 4096 \<and>
   snd (alloc_frame (init_paging (mm_boot bm hs bs))) = 0x400000 \<and>
   snd (alloc_frame (init_paging (mm_boot bm hs bs))) div PAGE_SIZE = 1024"
proof -
  let ?s = "init_paging (mm_boot bm hs bs)"
  have nf: "next_free_frame ?s = 0"
    by (simp add: init_paging_fields mm_boot_def)
  have "scan_frames 0 (0x8000000 div PAGE_SIZE) ?s = Some 0x400"
  proof (rule scan_frames_first)
    show "\<not> is_frame_used 0x400 ?s" by (simp add: init_paging_used)
    fix j :: u64 assume "j < 0x400"
    then have "j < 0x8000" by (simp add: word_less_nat_alt)
    then show "is_frame_used j ?s" using \<open>j < 0x400\<close> by (simp add: init_paging_used)
  qed (simp_all add: PAGE_SIZE_def)
  then have "alloc_frame ?s = take_frame 0x400 ?s"
    using nf by (simp add: alloc_frame_def init_paging_fields(1))
  then show ?thesis
    by (simp add: take_frame_def init_paging_fields PAGE_SIZE_def)
qed


section \<open>Evaluation of concrete runs\<close>

text \<open>
  Concrete runs are evaluated by rewriting with the definitions. The congruence rules
  below make the simplifier evaluate the bound value of a \<open>let\<close>, of a monadic bind or of a
  case distinction before it looks at the body.
\<close>

lemma bind_weak_cong: "m = m' \<Longrightarrow> Option.bind m f = Option.bind m' f"
  by simp

lemmas eval_congs =
  let_weak_cong bind_weak_cong prod.case_cong_weak option.case_cong_weak if_weak_cong

lemmas heap_eval =
  kmalloc_def kmalloc_scan.simps kfree_def take_block_def split_block_def coalesce_next_def
  coalesce_prev_def krealloc_def memcpy_def raw_write_def hdr_touched_def store_blk_def size_of_def free_of_def next_of_def
  prev_of_def mm_init_def mm_boot_def zero_mm_def zero_block_def demo_heap_def demo_heap1_def
  HEAP_BLOCK_SIZE_def KERNEL_HEAP_START_def KERNEL_HEAP_SIZE_def NULL_def Let_def

lemmas lock_eval =
  spin_test_and_set.simps spin_while_locked.simps spinlock_acquire_def spinlock_release_def
  spinlock_init_def get_lock_def put_lock_def task_get_current_id_def zero_lock_def

lemmas prio_eval =
  PRIORITY_IDLE_def PRIORITY_LOW_def PRIORITY_NORMAL_def PRIORITY_HIGH_def PRIORITY_CRITICAL_def

lemmas task_eval =
  task_init_def task_create_def task_list_add_def add_to_ready_queue_def
  remove_from_ready_queue_def scheduler_add_task_def scheduler_remove_task_def store_tcb_def
  store_cpu_def init_task_cpu_state_def task_setup_memory_def task_alloc_stack_def
  task_free_stack_def heap_alloc_def heap_free_def kernel_boot_def demo_boot_def
  demo_platform_def zero_task_def zero_stats_def zero_cpu_state_def small_boot_def TASK_STACK_SIZE_def
  TASK_NAME_MAX_def TASK_FLAG_KERNEL_def TASK_FLAG_USER_def TASK_FLAG_SYSTEM_def
  timer_get_ticks_def find_next_ready_task_def schedule_next_task_def task_yield_def
  task_set_priority_def task_get_by_id_def task_list_find.simps scheduler_tick_def
  wake_sleepers.simps wake_task_def preempt_condition_def

section \<open>Heap: first fit\<close>

lemma kmalloc_scan_first_fit:
  "unfit_run s sz p xs b \<Longrightarrow> b \<noteq> NULL \<Longrightarrow> free_of s b \<Longrightarrow> sz \<le> size_of s b \<Longrightarrow>
   kmalloc_scan H sz p s = Some (take_block H sz b s)"
proof (induction xs arbitrary: p)
  case Nil
  then show ?case by (simp add: kmalloc_scan.simps [of H sz b s])
next
  case (Cons x xs)
  then have "kmalloc_scan H sz (next_of s x) s = Some (take_block H sz b s)"
    by simp
  with Cons.prems show ?case
    by (auto simp: kmalloc_scan.simps [of H sz x s])
qed

lemma kmalloc_scan_exhausted:
  "unfit_run s sz p xs NULL \<Longrightarrow> kmalloc_scan H sz p s = Some (s, NULL)"
proof (induction xs arbitrary: p)
  case Nil
  then show ?case by (simp add: kmalloc_scan.simps [of H sz NULL s])
next
  case (Cons x xs)
  then have "kmalloc_scan H sz (next_of s x) s = Some (s, NULL)"
    by simp
  with Cons.prems show ?case
    by (auto simp: kmalloc_scan.simps [of H sz x s])
qed

text \<open>
  Claim C5. \<open>kmalloc\<close> rounds the request up to a multiple of 8 and takes the first block
  from the head of the list that is free and large enough: when the scan from \<open>heap_start\<close>
  passes the blocks \<open>xs\<close>, none of which fits, and then meets the fitting block \<open>b\<close>, the
  allocation is made in \<open>b\<close> and returns \<open>b + H\<close>. In the heap of 1024 bytes, allocate 100
  bytes, allocate 100 bytes, free the first, allocate 50 bytes: the last allocation returns
  the address of the first one, in a block of 56 bytes.
\<close>

theorem kmalloc_first_fit_reuse:
  "(heap_initialized s \<and> size0 \<noteq> 0 \<and>
    unfit_run s ((size0 + 7) AND NOT 7) (heap_start s) xs b \<and> b \<noteq> NULL \<and>
    free_of s b \<and> (size0 + 7) AND NOT 7 \<le> size_of s b
    \<longrightarrow> kmalloc H size0 s = Some (take_block H ((size0 + 7) AND NOT 7) b s) \<and>
        snd (take_block H ((size0 + 7) AND NOT 7) b s) = b + H) \<and>
   do { (s1, p1) \<leftarrow> kmalloc HEAP_BLOCK_SIZE 100 demo_heap;
        (s2, p2) \<leftarrow> kmalloc HEAP_BLOCK_SIZE 100 s1;
        (s3, p3) \<leftarrow> kmalloc HEAP_BLOCK_SIZE 50 (kfree HEAP_BLOCK_SIZE p1 s2);
        Some (p1, p2, p3, size_of s3 (p3 - HEAP_BLOCK_SIZE), free_of s3 (p3 - HEAP_BLOCK_SIZE))
      } = Some (KERNEL_HEAP_START + 32, KERNEL_HEAP_START + 168, KERNEL_HEAP_START + 32, 56, False)"
proof
  show "heap_initialized s \<and> size0 \<noteq> 0 \<and>
    unfit_run s ((size0 + 7) AND NOT 7) (heap_start s) xs b \<and> b \<noteq> NULL \<and>
    free_of s b \<and> (size0 + 7) AND NOT 7 \<le> size_of s b
    \<longrightarrow> kmalloc H size0 s = Some (take_block H ((size0 + 7) AND NOT 7) b s) \<and>
        snd (take_block H ((size0 + 7) AND NOT 7) b s) = b + H"
    by (auto simp: kmalloc_def kmalloc_scan_first_fit take_block_def Let_def)
  show "do { (s1, p1) \<leftarrow> kmalloc HEAP_BLOCK_SIZE 100 demo_heap;
        (s2, p2) \<leftarrow> kmalloc HEAP_BLOCK_SIZE 100 s1;
        (s3, p3) \<leftarrow> kmalloc HEAP_BLOCK_SIZE 50 (kfree HEAP_BLOCK_SIZE p1 s2);
        Some (p1, p2, p3, size_of s3 (p3 - HEAP_BLOCK_SIZE), free_of s3 (p3 - HEAP_BLOCK_SIZE))
      } = Some (KERNEL_HEAP_START + 32, KERNEL_HEAP_START + 168, KERNEL_HEAP_START + 32, 56, False)"
    by (simp add: heap_eval cong: eval_congs)
qed

text \<open>
  The general part at the second allocation of 100 bytes: block 0 is in use and is passed,
  the block behind it is the first fit.
\<close>

theorem kmalloc_first_fit_reuse_witness:
  "heap_initialized demo_heap1 \<and> (100 :: u64) \<noteq> 0 \<and>
   unfit_run demo_heap1 ((100 + 7) AND NOT 7)
     (heap_start demo_heap1)
     [KERNEL_HEAP_START] (KERNEL_HEAP_START + 136) \<and>
   KERNEL_HEAP_START + 136 \<noteq> NULL \<and>
   free_of demo_heap1 (KERNEL_HEAP_START + 136) \<and>
   (100 + 7) AND NOT 7 \<le> size_of demo_heap1 (KERNEL_HEAP_START + 136) \<and>
   kmalloc HEAP_BLOCK_SIZE 100 demo_heap1
     = Some (take_block HEAP_BLOCK_SIZE ((100 + 7) AND NOT 7) (KERNEL_HEAP_START + 136)
               demo_heap1) \<and>
   snd (take_block HEAP_BLOCK_SIZE ((100 + 7) AND NOT 7) (KERNEL_HEAP_START + 136)
          demo_heap1)
     = KERNEL_HEAP_START + 136 + HEAP_BLOCK_SIZE"
proof -
  have h: "heap_initialized demo_heap1 \<and> (100 :: u64) \<noteq> 0 \<and>
    unfit_run demo_heap1 ((100 + 7) AND NOT 7) (heap_start demo_heap1) [KERNEL_HEAP_START]
      (KERNEL_HEAP_START + 136) \<and>
    KERNEL_HEAP_START + 136 \<noteq> NULL \<and> free_of demo_heap1 (KERNEL_HEAP_START + 136) \<and>
    (100 + 7) AND NOT 7 \<le> size_of demo_heap1 (KERNEL_HEAP_START + 136)"
    by (simp add: heap_eval cong: eval_congs)
  from kmalloc_first_fit_reuse [THEN conjunct1, rule_format, OF h] h
  show ?thesis by blast
qed

section \<open>Heap: reallocation\<close>


lemma store_blk_frame [simp]:
  "bytes (store_blk p f s) = bytes s"
  "heap_start (store_blk p f s) = heap_start s"
  "heap_end (store_blk p f s) = heap_end s"
  "heap_initialized (store_blk p f s) = heap_initialized s"
  by (simp_all add: store_blk_def)

lemma split_block_frame [simp]:
  "bytes (split_block H sz b s) = bytes s"
  "heap_start (split_block H sz b s) = heap_start s"
  "heap_end (split_block H sz b s) = heap_end s"
  "heap_initialized (split_block H sz b s) = heap_initialized s"
  by (simp_all add: split_block_def Let_def)

lemma take_block_frame [simp]:
  "snd (take_block H sz b s) = b + H"
  "bytes (fst (take_block H sz b s)) = bytes s"
  "heap_start (fst (take_block H sz b s)) = heap_start s"
  "heap_end (fst (take_block H sz b s)) = heap_end s"
  "heap_initialized (fst (take_block H sz b s)) = heap_initialized s"
  by (simp_all add: take_block_def Let_def)




lemma blocks_store_blk:
  "blocks (store_blk p f s) q = (if q = p then f (blocks s p) else blocks s q)"
  by (simp add: store_blk_def)

lemma coalesce_frame [simp]:
  "bytes (coalesce_next H b s) = bytes s"
  "bytes (coalesce_prev H b s) = bytes s"
  by (simp_all add: coalesce_next_def coalesce_prev_def Let_def)

lemma kfree_bytes [simp]: "bytes (kfree H p s) = bytes s"
  by (simp add: kfree_def Let_def)

lemma coalesce_keeps_free:
  "free_of (coalesce_next H b s) q = free_of s q"
  "free_of (coalesce_prev H b s) q = free_of s q"
  by (simp_all add: coalesce_next_def coalesce_prev_def Let_def free_of_def blocks_store_blk)



lemma memcpy_frame [simp]:
  "heap_start (memcpy dst src n s) = heap_start s"
  "heap_end (memcpy dst src n s) = heap_end s"
  "heap_initialized (memcpy dst src n s) = heap_initialized s"
  by (simp_all add: memcpy_def raw_write_def)









text \<open>
  Above \<open>2^64 - 8\<close> it does not. In the heap of 1024 bytes, \<open>krealloc(p, 2^64 - 1)\<close> on the
  block of 104 bytes at \<open>p\<close>: \<open>kmalloc\<close> rounds the size to 0 and cuts a block of 0 bytes off
  the free block, so the pointer \<open>q\<close> it returns is the address of the header of the free
  remainder (824 bytes). The 104 bytes copied to \<open>q\<close> overwrite that header, here with the
  zero bytes of the old block, and the old block is freed.
\<close>

lemma krealloc_wrapped_size_overruns:
  "do { (s1, p) \<leftarrow> kmalloc HEAP_BLOCK_SIZE 100 demo_heap;
        (s1', q') \<leftarrow> kmalloc HEAP_BLOCK_SIZE 0xFFFFFFFFFFFFFFFF s1;
        (s2, q) \<leftarrow> krealloc HEAP_BLOCK_SIZE p 0xFFFFFFFFFFFFFFFF s1;
        Some (p, q', q, size_of s2 (q - HEAP_BLOCK_SIZE), blocks s1' q, blocks s2 q,
              free_of s2 (p - HEAP_BLOCK_SIZE))
      } = Some (0x200020, 0x2000A8, 0x2000A8, 0,
                \<lparr>hb_size = 824, hb_free = True, hb_next = NULL, hb_prev = 0x200088\<rparr>,
                \<lparr>hb_size = 0, hb_free = False, hb_next = NULL, hb_prev = NULL\<rparr>, True)"
  by (simp add: heap_eval hdr_of_bytes_def hdr_byte_def le64_def byte_of_def cong: eval_congs)



text \<open>
  Claim C10. \<open>krealloc(NULL, size)\<close> is \<open>kmalloc(size)\<close>, result and state; and for a pointer
  that is not \<open>NULL\<close>, \<open>krealloc(ptr, 0)\<close> returns \<open>NULL\<close> in the state that \<open>kfree(ptr)\<close> leaves.
\<close>

theorem krealloc_boundary_cases:
  "krealloc H NULL sz s = kmalloc H sz s \<and>
   (ptr \<noteq> NULL \<longrightarrow> krealloc H ptr 0 s = Some (kfree H ptr s, NULL))"
  by (simp add: krealloc_def)

text \<open>
  Both cases on the heap of 1024 bytes; freeing the block of \<open>demo_heap1\<close> marks it free
  again.
\<close>

theorem krealloc_boundary_cases_witness:
  "krealloc HEAP_BLOCK_SIZE NULL 100 demo_heap = kmalloc HEAP_BLOCK_SIZE 100 demo_heap \<and>
   KERNEL_HEAP_START + 32 \<noteq> NULL \<and>
   krealloc HEAP_BLOCK_SIZE (KERNEL_HEAP_START + 32) 0 demo_heap1
     = Some (kfree HEAP_BLOCK_SIZE (KERNEL_HEAP_START + 32) demo_heap1, NULL) \<and>
   \<not> free_of demo_heap1 KERNEL_HEAP_START \<and>
   free_of (kfree HEAP_BLOCK_SIZE (KERNEL_HEAP_START + 32) demo_heap1) KERNEL_HEAP_START"
proof -
  have p: "KERNEL_HEAP_START + 32 \<noteq> NULL"
    by (simp add: KERNEL_HEAP_START_def NULL_def)
  have "\<not> free_of demo_heap1 KERNEL_HEAP_START \<and>
      free_of (kfree HEAP_BLOCK_SIZE (KERNEL_HEAP_START + 32) demo_heap1) KERNEL_HEAP_START"
    by (simp add: heap_eval cong: eval_congs)
  with p krealloc_boundary_cases [of HEAP_BLOCK_SIZE 100 demo_heap "KERNEL_HEAP_START + 32"]
    krealloc_boundary_cases [of HEAP_BLOCK_SIZE 100 demo_heap1 "KERNEL_HEAP_START + 32"]
  show ?thesis by simp
qed
section \<open>Heap: coalescing\<close>

subsection \<open>What the steps of kfree write\<close>

lemma store_blk_size:
  "size_of (store_blk p (\<lambda>b. b\<lparr>hb_size := g b\<rparr>) s) q
     = (if q = p then g (blocks s p) else size_of s q)"
  "free_of (store_blk p (\<lambda>b. b\<lparr>hb_size := g b\<rparr>) s) q = free_of s q"
  "next_of (store_blk p (\<lambda>b. b\<lparr>hb_size := g b\<rparr>) s) q = next_of s q"
  "prev_of (store_blk p (\<lambda>b. b\<lparr>hb_size := g b\<rparr>) s) q = prev_of s q"
  by (simp_all add: next_of_def prev_of_def free_of_def size_of_def store_blk_def)

lemma store_blk_free:
  "size_of (store_blk p (\<lambda>b. b\<lparr>hb_free := v\<rparr>) s) q = size_of s q"
  "free_of (store_blk p (\<lambda>b. b\<lparr>hb_free := v\<rparr>) s) q = (if q = p then v else free_of s q)"
  "next_of (store_blk p (\<lambda>b. b\<lparr>hb_free := v\<rparr>) s) q = next_of s q"
  "prev_of (store_blk p (\<lambda>b. b\<lparr>hb_free := v\<rparr>) s) q = prev_of s q"
  by (simp_all add: next_of_def prev_of_def free_of_def size_of_def store_blk_def)

lemma store_blk_next:
  "size_of (store_blk p (\<lambda>b. b\<lparr>hb_next := n\<rparr>) s) q = size_of s q"
  "free_of (store_blk p (\<lambda>b. b\<lparr>hb_next := n\<rparr>) s) q = free_of s q"
  "next_of (store_blk p (\<lambda>b. b\<lparr>hb_next := n\<rparr>) s) q = (if q = p then n else next_of s q)"
  "prev_of (store_blk p (\<lambda>b. b\<lparr>hb_next := n\<rparr>) s) q = prev_of s q"
  by (simp_all add: next_of_def prev_of_def free_of_def size_of_def store_blk_def)

lemma store_blk_prev:
  "size_of (store_blk p (\<lambda>b. b\<lparr>hb_prev := n\<rparr>) s) q = size_of s q"
  "free_of (store_blk p (\<lambda>b. b\<lparr>hb_prev := n\<rparr>) s) q = free_of s q"
  "next_of (store_blk p (\<lambda>b. b\<lparr>hb_prev := n\<rparr>) s) q = next_of s q"
  "prev_of (store_blk p (\<lambda>b. b\<lparr>hb_prev := n\<rparr>) s) q = (if q = p then n else prev_of s q)"
  by (simp_all add: next_of_def prev_of_def free_of_def size_of_def store_blk_def)

lemmas store_blk_fields = store_blk_size store_blk_free store_blk_next store_blk_prev

lemma store_blk_heap:
  "heap_start (store_blk p f s) = heap_start s"
  "heap_end (store_blk p f s) = heap_end s"
  "heap_initialized (store_blk p f s) = heap_initialized s"
  by (simp_all add: store_blk_def)

lemma coalesce_next_effect:
  assumes "next_of s blk \<noteq> NULL" and "free_of s (next_of s blk)"
  shows "next_of (coalesce_next H blk s) q
           = (if q = blk then next_of s (next_of s blk) else next_of s q)"
    and "prev_of (coalesce_next H blk s) q
           = (if next_of s (next_of s blk) \<noteq> NULL \<and> q = next_of s (next_of s blk) then blk
              else prev_of s q)"
    and "free_of (coalesce_next H blk s) q = free_of s q"
    and "size_of (coalesce_next H blk s) q
           = (if q = blk then size_of s blk + (size_of s (next_of s blk) + H) else size_of s q)"
  using assms
  by (simp_all add: coalesce_next_def Let_def store_blk_fields size_of_def [of s blk])

lemma coalesce_next_skip:
  "next_of s blk = NULL \<or> \<not> free_of s (next_of s blk) \<Longrightarrow> coalesce_next H blk s = s"
  by (auto simp: coalesce_next_def)

lemma coalesce_prev_effect:
  assumes "prev_of s blk \<noteq> NULL" and "free_of s (prev_of s blk)"
  shows "next_of (coalesce_prev H blk s) q
           = (if q = prev_of s blk then next_of s blk else next_of s q)"
    and "prev_of (coalesce_prev H blk s) q
           = (if next_of s blk \<noteq> NULL \<and> q = next_of s blk then prev_of s blk else prev_of s q)"
    and "free_of (coalesce_prev H blk s) q = free_of s q"
    and "size_of (coalesce_prev H blk s) q
           = (if q = prev_of s blk then size_of s (prev_of s blk) + (size_of s blk + H)
              else size_of s q)"
  using assms
  by (simp_all add: coalesce_prev_def Let_def store_blk_fields size_of_def [of s "prev_of s blk"])

lemma coalesce_prev_skip:
  "prev_of s blk = NULL \<or> \<not> free_of s (prev_of s blk) \<Longrightarrow> coalesce_prev H blk s = s"
  by (auto simp: coalesce_prev_def)

lemma coalesce_heap:
  "heap_start (coalesce_next H b s) = heap_start s"
  "heap_end (coalesce_next H b s) = heap_end s"
  "heap_initialized (coalesce_next H b s) = heap_initialized s"
  "heap_start (coalesce_prev H b s) = heap_start s"
  "heap_end (coalesce_prev H b s) = heap_end s"
  "heap_initialized (coalesce_prev H b s) = heap_initialized s"
  by (simp_all add: coalesce_next_def coalesce_prev_def Let_def store_blk_heap)

subsection \<open>Block lists\<close>

lemma block_path_cong:
  "(\<And>b. b \<in> set bs \<Longrightarrow> next_of s' b = next_of s b)
     \<Longrightarrow> block_path s' p bs q = block_path s p bs q"
  by (induction bs arbitrary: p) simp_all

lemma back_links_cong:
  "(\<And>b. b \<in> set bs \<Longrightarrow> prev_of s' b = prev_of s b)
     \<Longrightarrow> back_links s' q bs = back_links s q bs"
  by (induction bs arbitrary: q) simp_all

lemma no_adjacent_free_cong:
  "(\<And>b. b \<in> set bs \<Longrightarrow> free_of s' b = free_of s b)
     \<Longrightarrow> no_adjacent_free s' bs = no_adjacent_free s bs"
  by (induction s bs rule: no_adjacent_free.induct) simp_all

lemma block_path_append:
  "block_path s p (xs @ ys) q = (\<exists>m. block_path s p xs m \<and> block_path s m ys q)"
  by (induction xs arbitrary: p) auto

lemma back_links_append:
  "back_links s q (xs @ ys)
     = (back_links s q xs \<and> back_links s (if xs = [] then q else last xs) ys)"
  by (induction xs arbitrary: q) auto

lemma no_adjacent_free_append:
  "no_adjacent_free s (xs @ ys)
     = (no_adjacent_free s xs \<and> no_adjacent_free s ys
        \<and> (xs = [] \<or> ys = [] \<or> \<not> (free_of s (last xs) \<and> free_of s (hd ys))))"
proof (induction s xs rule: no_adjacent_free.induct)
  case (2 s b)
  then show ?case by (cases ys) auto
qed auto

lemma block_path_not_null: "block_path s p bs q \<Longrightarrow> NULL \<notin> set bs"
  by (induction bs arbitrary: p) auto

lemma block_path_next:
  "block_path s p (b # ys) NULL \<Longrightarrow> next_of s b = (if ys = [] then NULL else hd ys)"
  by (cases ys) auto

lemma unlink_successor:
  assumes path: "block_path s p0 (xs @ a # b # ys) NULL"
    and bl: "back_links s q0 (xs @ a # b # ys)"
    and dist: "distinct (xs @ a # b # ys)"
    and nx: "\<And>q. next_of s' q = (if q = a then next_of s b else next_of s q)"
    and pv: "\<And>q. prev_of s' q
               = (if next_of s b \<noteq> NULL \<and> q = next_of s b then a else prev_of s q)"
  shows "block_path s' p0 (xs @ a # ys) NULL \<and> back_links s' q0 (xs @ a # ys)"
proof -
  have nn: "NULL \<notin> set (xs @ a # b # ys)"
    using path by (rule block_path_not_null)
  obtain m where m: "block_path s p0 xs m" "block_path s m (a # b # ys) NULL"
    using path by (auto simp: block_path_append)
  have "block_path s b (b # ys) NULL"
    using m(2) by simp
  then have nb: "next_of s b = (if ys = [] then NULL else hd ys)"
    by (rule block_path_next)
  have nb_cases: "next_of s b = NULL \<or> next_of s b \<in> set ys"
    using nb by (cases ys) auto
  have "block_path s' p0 xs m = block_path s p0 xs m"
    by (rule block_path_cong) (use dist in \<open>auto simp: nx\<close>)
  then have p1: "block_path s' p0 xs m"
    using m(1) by simp
  have "block_path s' (next_of s b) ys NULL = block_path s (next_of s b) ys NULL"
    by (rule block_path_cong) (use dist in \<open>auto simp: nx\<close>)
  then have p2: "block_path s' (next_of s b) ys NULL"
    using m(2) by simp
  have p3: "block_path s' m (a # ys) NULL"
    using m(2) p2 by (simp add: nx)
  have "back_links s' q0 xs = back_links s q0 xs"
    by (rule back_links_cong) (use nb_cases dist nn in \<open>auto simp: pv\<close>)
  then have b1: "back_links s' q0 xs"
    using bl by (simp add: back_links_append)
  have "prev_of s' a = prev_of s a"
    using nb_cases dist nn by (auto simp: pv)
  then have b2: "prev_of s' a = (if xs = [] then q0 else last xs)"
    using bl by (simp add: back_links_append)
  have b3: "back_links s' a ys"
  proof (cases ys)
    case Nil
    then show ?thesis by simp
  next
    case (Cons y ys')
    have "back_links s' y ys' = back_links s y ys'"
      by (rule back_links_cong) (use nb dist Cons in \<open>auto simp: pv\<close>)
    moreover have "back_links s y ys'"
      using bl Cons by (simp add: back_links_append)
    moreover have "prev_of s' y = a"
      using nb nn Cons by (auto simp: pv)
    ultimately show ?thesis
      using Cons by simp
  qed
  show ?thesis
    using p1 p3 b1 b2 b3 by (auto simp: block_path_append back_links_append)
qed

lemma coalesce_next_list:
  assumes path: "block_path s p0 (xs @ blk # ys) NULL"
    and bl: "back_links s q0 (xs @ blk # ys)"
    and dist: "distinct (xs @ blk # ys)"
  shows "block_path (coalesce_next H blk s) p0
           (xs @ blk # (if ys \<noteq> [] \<and> free_of s (hd ys) then tl ys else ys)) NULL
         \<and> back_links (coalesce_next H blk s) q0
           (xs @ blk # (if ys \<noteq> [] \<and> free_of s (hd ys) then tl ys else ys))"
proof -
  obtain m where "block_path s m (blk # ys) NULL"
    using path by (auto simp: block_path_append)
  then have "block_path s blk (blk # ys) NULL"
    by simp
  then have nb: "next_of s blk = (if ys = [] then NULL else hd ys)"
    by (rule block_path_next)
  have nn: "NULL \<notin> set (xs @ blk # ys)"
    using path by (rule block_path_not_null)
  show ?thesis
  proof (cases "ys \<noteq> [] \<and> free_of s (hd ys)")
    case True
    then obtain n ys' where ys: "ys = n # ys'" and fr: "free_of s n"
      by (cases ys) auto
    have n: "next_of s blk = n" "n \<noteq> NULL"
      using nb nn ys by auto
    have "block_path (coalesce_next H blk s) p0 (xs @ blk # ys') NULL
          \<and> back_links (coalesce_next H blk s) q0 (xs @ blk # ys')"
    proof (rule unlink_successor [where s = s and b = n])
      show "block_path s p0 (xs @ blk # n # ys') NULL" using path ys by simp
      show "back_links s q0 (xs @ blk # n # ys')" using bl ys by simp
      show "distinct (xs @ blk # n # ys')" using dist ys by simp
      show "\<And>q. next_of (coalesce_next H blk s) q
                 = (if q = blk then next_of s n else next_of s q)"
        using coalesce_next_effect(1) [of s blk H] n fr by simp
      show "\<And>q. prev_of (coalesce_next H blk s) q
                 = (if next_of s n \<noteq> NULL \<and> q = next_of s n then blk else prev_of s q)"
        using coalesce_next_effect(2) [of s blk H] n fr by simp
    qed
    then show ?thesis
      using True ys by simp
  next
    case False
    then have "coalesce_next H blk s = s"
      using nb by (intro coalesce_next_skip) auto
    then show ?thesis
      using False path bl by auto
  qed
qed

lemma coalesce_prev_list:
  assumes path: "block_path s p0 (xs @ blk # zs) NULL"
    and bl: "back_links s NULL (xs @ blk # zs)"
    and dist: "distinct (xs @ blk # zs)"
  shows "block_path (coalesce_prev H blk s) p0
           (if xs \<noteq> [] \<and> free_of s (last xs) then xs @ zs else xs @ blk # zs) NULL
         \<and> back_links (coalesce_prev H blk s) NULL
           (if xs \<noteq> [] \<and> free_of s (last xs) then xs @ zs else xs @ blk # zs)"
proof -
  have pb: "prev_of s blk = (if xs = [] then NULL else last xs)"
    using bl by (simp add: back_links_append)
  have nn: "NULL \<notin> set (xs @ blk # zs)"
    using path by (rule block_path_not_null)
  show ?thesis
  proof (cases "xs \<noteq> [] \<and> free_of s (last xs)")
    case True
    then obtain p xs' where xs: "xs = xs' @ [p]" and fr: "free_of s p"
      by (cases xs rule: rev_cases) auto
    have p: "prev_of s blk = p" "p \<noteq> NULL"
      using pb nn xs by auto
    have "block_path (coalesce_prev H blk s) p0 (xs' @ p # zs) NULL
          \<and> back_links (coalesce_prev H blk s) NULL (xs' @ p # zs)"
    proof (rule unlink_successor [where s = s and b = blk])
      show "block_path s p0 (xs' @ p # blk # zs) NULL" using path xs by simp
      show "back_links s NULL (xs' @ p # blk # zs)" using bl xs by simp
      show "distinct (xs' @ p # blk # zs)" using dist xs by simp
      show "\<And>q. next_of (coalesce_prev H blk s) q
                 = (if q = p then next_of s blk else next_of s q)"
        using coalesce_prev_effect(1) [of s blk H] p fr by simp
      show "\<And>q. prev_of (coalesce_prev H blk s) q
                 = (if next_of s blk \<noteq> NULL \<and> q = next_of s blk then p else prev_of s q)"
        using coalesce_prev_effect(2) [of s blk H] p fr by simp
    qed
    then show ?thesis
      using True xs by simp
  next
    case False
    then have "coalesce_prev H blk s = s"
      using pb by (intro coalesce_prev_skip) auto
    then show ?thesis
      using False path bl by auto
  qed
qed

lemma no_adjacent_free_Cons:
  "no_adjacent_free s (b # bs)
     = (no_adjacent_free s bs \<and> (bs = [] \<or> \<not> (free_of s b \<and> free_of s (hd bs))))"
  by (cases bs) auto

lemma no_adjacent_free_tl: "no_adjacent_free s bs \<Longrightarrow> no_adjacent_free s (tl bs)"
  by (cases bs) (auto simp: no_adjacent_free_Cons)

subsection \<open>kfree on a block list\<close>

lemma kfree_accepted:
  "kfree_accepts H ptr s \<Longrightarrow>
     kfree H ptr s = coalesce_prev H (ptr - H) (coalesce_next H (ptr - H)
                       (store_blk (ptr - H) (\<lambda>b. b\<lparr>hb_free := True\<rparr>) s))"
  by (auto simp: kfree_def kfree_accepts_def Let_def)

lemma kfree_free_of:
  "kfree_accepts H ptr s \<Longrightarrow> free_of (kfree H ptr s) q = (q = ptr - H \<or> free_of s q)"
  by (simp add: kfree_accepted coalesce_keeps_free store_blk_fields)

lemma kfree_heap:
  "heap_start (kfree H ptr s) = heap_start s"
  "heap_end (kfree H ptr s) = heap_end s"
  "heap_initialized (kfree H ptr s) = heap_initialized s"
  by (simp_all add: kfree_def Let_def coalesce_heap store_blk_heap)

lemma kfree_block_list:
  assumes wf: "block_list s (xs @ blk # ys)"
    and acc: "kfree_accepts H ptr s"
    and blk: "blk = ptr - H"
    and zs: "zs = (if ys \<noteq> [] \<and> free_of s (hd ys) then tl ys else ys)"
  shows "block_list (kfree H ptr s)
           (if xs \<noteq> [] \<and> free_of s (last xs) then xs @ zs else xs @ blk # zs)"
proof -
  let ?s1 = "store_blk blk (\<lambda>b. b\<lparr>hb_free := True\<rparr>) s"
  let ?s2 = "coalesce_next H blk ?s1"
  have path: "block_path s (heap_start s) (xs @ blk # ys) NULL"
    and bl: "back_links s NULL (xs @ blk # ys)"
    and dist: "distinct (xs @ blk # ys)"
    using wf by (simp_all add: block_list_def)
  have "block_path ?s1 (heap_start s) (xs @ blk # ys) NULL
          = block_path s (heap_start s) (xs @ blk # ys) NULL"
    by (rule block_path_cong) (simp add: store_blk_fields)
  then have path1: "block_path ?s1 (heap_start s) (xs @ blk # ys) NULL"
    using path by simp
  have "back_links ?s1 NULL (xs @ blk # ys) = back_links s NULL (xs @ blk # ys)"
    by (rule back_links_cong) (simp add: store_blk_fields)
  then have bl1: "back_links ?s1 NULL (xs @ blk # ys)"
    using bl by simp
  have "ys \<noteq> [] \<Longrightarrow> hd ys \<noteq> blk"
    using dist by (cases ys) auto
  then have zs1: "(if ys \<noteq> [] \<and> free_of ?s1 (hd ys) then tl ys else ys) = zs"
    by (auto simp: zs store_blk_fields)
  have step2: "block_path ?s2 (heap_start s) (xs @ blk # zs) NULL"
              "back_links ?s2 NULL (xs @ blk # zs)"
    using coalesce_next_list [OF path1 bl1 dist, of H] unfolding zs1 by simp_all
  have "distinct (xs @ blk # tl ys)"
    using dist by (cases ys) auto
  then have dist2: "distinct (xs @ blk # zs)"
    using dist by (simp add: zs)
  have "xs \<noteq> [] \<Longrightarrow> last xs \<noteq> blk"
    using dist by (cases xs rule: rev_cases) auto
  then have xs2: "(xs \<noteq> [] \<and> free_of ?s2 (last xs)) = (xs \<noteq> [] \<and> free_of s (last xs))"
    by (auto simp: coalesce_keeps_free store_blk_fields)
  have step3:
    "block_path (kfree H ptr s) (heap_start s)
       (if xs \<noteq> [] \<and> free_of s (last xs) then xs @ zs else xs @ blk # zs) NULL"
    "back_links (kfree H ptr s) NULL
       (if xs \<noteq> [] \<and> free_of s (last xs) then xs @ zs else xs @ blk # zs)"
    using coalesce_prev_list [OF step2 dist2, of H] acc
    unfolding xs2 by (simp_all add: kfree_accepted blk)
  have "distinct (if xs \<noteq> [] \<and> free_of s (last xs) then xs @ zs else xs @ blk # zs)"
    using dist2 by auto
  then show ?thesis
    using step3 by (simp add: block_list_def kfree_heap)
qed

lemma kfree_no_adjacent_free:
  assumes dist: "distinct (xs @ blk # ys)"
    and naf: "no_adjacent_free s (xs @ blk # ys)"
    and acc: "kfree_accepts H ptr s"
    and blk: "blk = ptr - H"
    and zs: "zs = (if ys \<noteq> [] \<and> free_of s (hd ys) then tl ys else ys)"
  shows "no_adjacent_free (kfree H ptr s)
           (if xs \<noteq> [] \<and> free_of s (last xs) then xs @ zs else xs @ blk # zs)"
proof -
  let ?s' = "kfree H ptr s"
  have fr: "\<And>q. free_of ?s' q = (q = blk \<or> free_of s q)"
    using acc by (simp add: kfree_free_of blk)
  have nxs: "no_adjacent_free s xs" and nys: "no_adjacent_free s ys"
    and jx: "xs = [] \<or> \<not> (free_of s (last xs) \<and> free_of s blk)"
    and jy: "ys = [] \<or> \<not> (free_of s blk \<and> free_of s (hd ys))"
    using naf by (auto simp: no_adjacent_free_append no_adjacent_free_Cons)
  have nzs: "no_adjacent_free s zs"
    using nys by (simp add: zs no_adjacent_free_tl)
  have hz: "zs = [] \<or> \<not> free_of s (hd zs)"
  proof (cases "ys \<noteq> [] \<and> free_of s (hd ys)")
    case True
    then obtain n ys' where "ys = n # ys'" "free_of s n"
      by (cases ys) auto
    then show ?thesis
      using nys by (auto simp: zs no_adjacent_free_Cons)
  next
    case False
    then show ?thesis by (auto simp: zs)
  qed
  have "set zs \<subseteq> set ys"
    by (cases ys) (auto simp: zs)
  then have nb: "blk \<notin> set xs" "blk \<notin> set zs"
    using dist by auto
  have "no_adjacent_free ?s' xs = no_adjacent_free s xs"
    by (rule no_adjacent_free_cong) (use nb fr in auto)
  then have nxs': "no_adjacent_free ?s' xs"
    using nxs by simp
  have "no_adjacent_free ?s' zs = no_adjacent_free s zs"
    by (rule no_adjacent_free_cong) (use nb fr in auto)
  then have nzs': "no_adjacent_free ?s' zs"
    using nzs by simp
  have hz': "zs = [] \<or> \<not> free_of ?s' (hd zs)"
    using hz nb by (cases zs) (auto simp: fr)
  have lx: "xs \<noteq> [] \<Longrightarrow> free_of ?s' (last xs) = free_of s (last xs)"
    using nb by (cases xs rule: rev_cases) (auto simp: fr)
  show ?thesis
    using nxs' nzs' hz' lx
    by (auto simp: no_adjacent_free_append no_adjacent_free_Cons)
qed

lemma block_list_links:
  assumes "block_list s (xs @ blk # ys)"
  shows "next_of s blk = (if ys = [] then NULL else hd ys)"
    and "prev_of s blk = (if xs = [] then NULL else last xs)"
    and "NULL \<notin> set (xs @ blk # ys)"
    and "ys \<noteq> [] \<Longrightarrow> hd ys \<noteq> blk"
    and "xs \<noteq> [] \<Longrightarrow> last xs \<noteq> blk"
proof -
  have path: "block_path s (heap_start s) (xs @ blk # ys) NULL"
    and bl: "back_links s NULL (xs @ blk # ys)"
    and dist: "distinct (xs @ blk # ys)"
    using assms by (simp_all add: block_list_def)
  obtain m where "block_path s m (blk # ys) NULL"
    using path by (auto simp: block_path_append)
  then have "block_path s blk (blk # ys) NULL"
    by simp
  then show "next_of s blk = (if ys = [] then NULL else hd ys)"
    by (rule block_path_next)
  show "prev_of s blk = (if xs = [] then NULL else last xs)"
    using bl by (simp add: back_links_append)
  show "NULL \<notin> set (xs @ blk # ys)"
    using path by (rule block_path_not_null)
  show "ys \<noteq> [] \<Longrightarrow> hd ys \<noteq> blk"
    using dist by (cases ys) auto
  show "xs \<noteq> [] \<Longrightarrow> last xs \<noteq> blk"
    using dist by (cases xs rule: rev_cases) auto
qed

lemma kfree_no_merge:
  assumes wf: "block_list s (xs @ blk # ys)"
    and acc: "kfree_accepts H ptr s"
    and blk: "blk = ptr - H"
    and before: "xs = [] \<or> \<not> free_of s (last xs)"
    and after: "ys = [] \<or> \<not> free_of s (hd ys)"
  shows "kfree H ptr s = store_blk blk (\<lambda>b. b\<lparr>hb_free := True\<rparr>) s"
proof -
  let ?t = "store_blk blk (\<lambda>b. b\<lparr>hb_free := True\<rparr>) s"
  note links = block_list_links [OF wf]
  have "next_of ?t blk = NULL \<or> \<not> free_of ?t (next_of ?t blk)"
    using links(1,4) after by (auto simp: store_blk_fields)
  then have 1: "coalesce_next H blk ?t = ?t"
    by (rule coalesce_next_skip)
  have "prev_of ?t blk = NULL \<or> \<not> free_of ?t (prev_of ?t blk)"
    using links(2,5) before by (auto simp: store_blk_fields)
  then have 2: "coalesce_prev H blk ?t = ?t"
    by (rule coalesce_prev_skip)
  show ?thesis
    using acc by (simp add: kfree_accepted blk [symmetric] 1 2)
qed

lemma kfree_merge_next:
  assumes wf: "block_list s (xs @ blk # n # ys)"
    and acc: "kfree_accepts H ptr s"
    and blk: "blk = ptr - H"
    and before: "xs = [] \<or> \<not> free_of s (last xs)"
    and fr: "free_of s n"
  shows "size_of (kfree H ptr s) blk = size_of s blk + (size_of s n + H)"
proof -
  let ?t = "store_blk blk (\<lambda>b. b\<lparr>hb_free := True\<rparr>) s"
  let ?u = "coalesce_next H blk ?t"
  note links = block_list_links [OF wf]
  have wf': "block_list s ((xs @ [blk]) @ n # ys)"
    using wf by simp
  note links' = block_list_links [OF wf']
  have n: "next_of ?t blk = n" "n \<noteq> NULL" "free_of ?t n"
    using links(1,3) fr by (auto simp: store_blk_fields)
  have nn: "next_of ?t n \<noteq> blk"
  proof -
    have "next_of ?t n = (if ys = [] then NULL else hd ys)"
      using links'(1) by (simp add: store_blk_fields)
    moreover have "distinct (xs @ blk # n # ys)"
      using wf by (simp add: block_list_def)
    ultimately show ?thesis
      using links(3) by (cases ys) auto
  qed
  have sz: "size_of ?u blk = size_of s blk + (size_of s n + H)"
    using coalesce_next_effect(4) [of ?t blk H blk] n by (simp add: store_blk_fields)
  have "prev_of ?u blk = prev_of s blk"
    using coalesce_next_effect(2) [of ?t blk H blk] n nn by (simp add: store_blk_fields)
  moreover have "\<And>q. free_of ?u q = (q = blk \<or> free_of s q)"
    by (simp add: coalesce_keeps_free store_blk_fields)
  ultimately have "prev_of ?u blk = NULL \<or> \<not> free_of ?u (prev_of ?u blk)"
    using links(2,5) before by auto
  then have "coalesce_prev H blk ?u = ?u"
    by (rule coalesce_prev_skip)
  then show ?thesis
    using acc sz by (simp add: kfree_accepted blk [symmetric])
qed

lemma kfree_merge_prev:
  assumes wf: "block_list s (xs @ p # blk # ys)"
    and acc: "kfree_accepts H ptr s"
    and blk: "blk = ptr - H"
    and fr: "free_of s p"
    and after: "ys = [] \<or> \<not> free_of s (hd ys)"
  shows "size_of (kfree H ptr s) p = size_of s p + (size_of s blk + H)"
proof -
  let ?t = "store_blk blk (\<lambda>b. b\<lparr>hb_free := True\<rparr>) s"
  have wf': "block_list s ((xs @ [p]) @ blk # ys)"
    using wf by simp
  note links = block_list_links [OF wf']
  have "next_of ?t blk = NULL \<or> \<not> free_of ?t (next_of ?t blk)"
    using links(1,4) after by (auto simp: store_blk_fields)
  then have 1: "coalesce_next H blk ?t = ?t"
    by (rule coalesce_next_skip)
  have p: "prev_of ?t blk = p" "p \<noteq> NULL" "p \<noteq> blk" "free_of ?t p"
    using links(2,3,5) fr by (auto simp: store_blk_fields)
  have "size_of (coalesce_prev H blk ?t) p = size_of s p + (size_of s blk + H)"
    using coalesce_prev_effect(4) [of ?t blk H p] p by (simp add: store_blk_fields)
  then show ?thesis
    using acc by (simp add: kfree_accepted blk [symmetric] 1)
qed

lemma kfree_rejected: "\<not> kfree_accepts H ptr s \<Longrightarrow> kfree H ptr s = s"
  by (auto simp: kfree_def kfree_accepts_def Let_def)

lemma kfree_accepts_kfree: "kfree_accepts H p (kfree H q s) = kfree_accepts H p s"
  by (simp add: kfree_accepts_def kfree_heap)

lemma kfree_last_then_middle:
  assumes wf: "block_list s (xs @ a # b # c # ys)"
    and naf: "no_adjacent_free s (xs @ a # b # c # ys)"
    and used: "\<not> free_of s a" "\<not> free_of s b" "\<not> free_of s c"
    and sizes: "size_of s b = sz" "size_of s c = sz"
    and after: "ys = [] \<or> \<not> free_of s (hd ys)"
    and acc: "kfree_accepts H (b + H) s" "kfree_accepts H (c + H) s"
    and s2: "s2 = kfree H (b + H) (kfree H (c + H) s)"
  shows "block_list s2 (xs @ a # b # ys) \<and> no_adjacent_free s2 (xs @ a # b # ys)
         \<and> free_of s2 b \<and> size_of s2 b = sz + sz + H"
proof -
  let ?s1 = "kfree H (c + H) s"
  have dist: "distinct (xs @ a # b # c # ys)"
    using wf by (simp add: block_list_def)
  have wf3: "block_list s ((xs @ [a, b]) @ c # ys)"
    using wf by simp
  have naf3: "no_adjacent_free s ((xs @ [a, b]) @ c # ys)"
    using naf by simp
  have dist3: "distinct ((xs @ [a, b]) @ c # ys)"
    using dist by simp
  have s1: "?s1 = store_blk c (\<lambda>b. b\<lparr>hb_free := True\<rparr>) s"
    using kfree_no_merge [OF wf3 acc(2)] used after by simp
  have fr1: "\<And>q. free_of ?s1 q = (q = c \<or> free_of s q)"
    using acc(2) by (simp add: kfree_free_of)
  have wf1: "block_list ?s1 ((xs @ [a]) @ b # c # ys)"
    using kfree_block_list [OF wf3 acc(2) _ refl] used after by auto
  have naf1: "no_adjacent_free ?s1 ((xs @ [a]) @ b # c # ys)"
    using kfree_no_adjacent_free [OF dist3 naf3 acc(2) _ refl] used after by auto
  have dist1: "distinct ((xs @ [a]) @ b # c # ys)"
    using dist by simp
  have acc1: "kfree_accepts H (b + H) ?s1"
    using acc(1) by (simp add: kfree_accepts_kfree)
  have a1: "\<not> free_of ?s1 a"
    using used dist by (auto simp: fr1)
  have "size_of (kfree H (b + H) ?s1) b = size_of ?s1 b + (size_of ?s1 c + H)"
    using kfree_merge_next [OF wf1 acc1] a1 by (simp add: fr1)
  then have sz: "size_of s2 b = sz + sz + H"
    using sizes by (simp add: s2 s1 store_blk_fields)
  have "block_list s2 (xs @ a # b # ys)"
    using kfree_block_list [OF wf1 acc1 _ refl] a1 by (simp add: fr1 s2)
  moreover have "no_adjacent_free s2 (xs @ a # b # ys)"
    using kfree_no_adjacent_free [OF dist1 naf1 acc1 _ refl] a1 by (simp add: fr1 s2)
  moreover have "free_of s2 b"
    using acc1 by (simp add: s2 kfree_free_of)
  ultimately show ?thesis
    using sz by simp
qed

lemma kfree_middle_then_last:
  assumes wf: "block_list s (xs @ a # b # c # ys)"
    and naf: "no_adjacent_free s (xs @ a # b # c # ys)"
    and used: "\<not> free_of s a" "\<not> free_of s b" "\<not> free_of s c"
    and sizes: "size_of s b = sz" "size_of s c = sz"
    and after: "ys = [] \<or> \<not> free_of s (hd ys)"
    and acc: "kfree_accepts H (b + H) s" "kfree_accepts H (c + H) s"
    and s2: "s2 = kfree H (c + H) (kfree H (b + H) s)"
  shows "block_list s2 (xs @ a # b # ys) \<and> no_adjacent_free s2 (xs @ a # b # ys)
         \<and> free_of s2 b \<and> size_of s2 b = sz + sz + H"
proof -
  let ?s1 = "kfree H (b + H) s"
  have dist: "distinct (xs @ a # b # c # ys)"
    using wf by (simp add: block_list_def)
  have wf2: "block_list s ((xs @ [a]) @ b # c # ys)"
    using wf by simp
  have naf2: "no_adjacent_free s ((xs @ [a]) @ b # c # ys)"
    using naf by simp
  have dist2: "distinct ((xs @ [a]) @ b # c # ys)"
    using dist by simp
  have s1: "?s1 = store_blk b (\<lambda>b. b\<lparr>hb_free := True\<rparr>) s"
    using kfree_no_merge [OF wf2 acc(1)] used by simp
  have fr1: "\<And>q. free_of ?s1 q = (q = b \<or> free_of s q)"
    using acc(1) by (simp add: kfree_free_of)
  have wf1: "block_list ?s1 ((xs @ [a, b]) @ c # ys)"
    using kfree_block_list [OF wf2 acc(1) _ refl] used by auto
  have naf1: "no_adjacent_free ?s1 ((xs @ [a, b]) @ c # ys)"
    using kfree_no_adjacent_free [OF dist2 naf2 acc(1) _ refl] used by auto
  have dist1: "distinct ((xs @ [a, b]) @ c # ys)"
    using dist by simp
  have wf1': "block_list ?s1 ((xs @ [a]) @ b # c # ys)"
    using wf1 by simp
  have acc1: "kfree_accepts H (c + H) ?s1"
    using acc(2) by (simp add: kfree_accepts_kfree)
  have after1: "ys = [] \<or> \<not> free_of ?s1 (hd ys)"
    using after dist by (cases ys) (auto simp: fr1)
  have "size_of (kfree H (c + H) ?s1) b = size_of ?s1 b + (size_of ?s1 c + H)"
    using kfree_merge_prev [OF wf1' acc1] after1 by (simp add: fr1)
  then have sz: "size_of s2 b = sz + sz + H"
    using sizes by (simp add: s2 s1 store_blk_fields)
  have "block_list s2 (xs @ a # b # ys)"
    using kfree_block_list [OF wf1 acc1 _ refl] after1 by (auto simp: fr1 s2)
  moreover have "no_adjacent_free s2 (xs @ a # b # ys)"
    using kfree_no_adjacent_free [OF dist1 naf1 acc1 _ refl] after1 by (auto simp: fr1 s2)
  moreover have "free_of s2 b"
    using acc1 dist by (simp add: s2 kfree_free_of fr1)
  ultimately show ?thesis
    using sz by simp
qed

subsection \<open>Three blocks\<close>

lemma packed_heap_eval:
  "heap_start packed_heap = 0x200000"
  "heap_end packed_heap = 0x200400"
  "heap_initialized packed_heap"
  "map (\<lambda>b. (size_of packed_heap b, free_of packed_heap b,
              next_of packed_heap b, prev_of packed_heap b))
     [0x200000, 0x200088, 0x200110, 0x200198, 0x200220]
   = [(104, False, 0x200088, NULL), (104, False, 0x200110, 0x200000),
      (104, False, 0x200198, 0x200088), (104, False, 0x200220, 0x200110),
      (448, True, NULL, 0x200198)]"
  by (simp_all add: packed_heap_def heap_eval cong: eval_congs)

text \<open>
  Claim C4, as stated, fails in the heap of 1024 bytes: after three allocations of 100 bytes
  the blocks of 104 bytes at \<open>p1\<close>, \<open>p2\<close> and \<open>p3\<close> lie one behind the other and the free
  remainder of 584 bytes lies behind the third. Freeing the last two, in either order,
  leaves one free block at the second block, of 856 bytes: the remainder and its header are
  merged in as well, where the sum of the two sizes and one header is 240.
\<close>

theorem kfree_absorbs_free_block_behind:
  "do { (s1, p1) \<leftarrow> kmalloc HEAP_BLOCK_SIZE 100 demo_heap;
        (s2, p2) \<leftarrow> kmalloc HEAP_BLOCK_SIZE 100 s1;
        (s3, p3) \<leftarrow> kmalloc HEAP_BLOCK_SIZE 100 s2;
        let b = p2 - HEAP_BLOCK_SIZE; c = p3 - HEAP_BLOCK_SIZE;
            sa = kfree HEAP_BLOCK_SIZE p2 (kfree HEAP_BLOCK_SIZE p3 s3);
            sb = kfree HEAP_BLOCK_SIZE p3 (kfree HEAP_BLOCK_SIZE p2 s3)
        in Some ([p1, p2, p3], next_of s3 (p1 - HEAP_BLOCK_SIZE) = b, next_of s3 b = c,
                 [size_of s3 (p1 - HEAP_BLOCK_SIZE), size_of s3 b, size_of s3 c],
                 size_of s3 b + size_of s3 c + HEAP_BLOCK_SIZE,
                 (free_of sa b, size_of sa b, next_of sa b),
                 (free_of sb b, size_of sb b, next_of sb b))
      } = Some ([0x200020, 0x2000A8, 0x200130], True, True, [104, 104, 104], 240,
                (True, 856, NULL), (True, 856, NULL))"
  by (simp add: heap_eval cong: eval_congs)

text \<open>
  Claim C4, amended: the three-block case holds when the block behind the third is in use
  or absent. \<open>kfree\<close> of an accepted pointer marks the block free, then merges it with the
  next block if that is free, then with the previous block if that is free. On a block
  list in which no two neighbours are both free, \<open>kfree\<close> of a block of the list leaves a
  block list in which no two neighbours are both free. And when \<open>a\<close>, \<open>b\<close>, \<open>c\<close> are three
  neighbours in use, \<open>b\<close> and \<open>c\<close> of size \<open>sz\<close>, and the block behind \<open>c\<close> is in use or
  absent, then freeing \<open>b\<close> and \<open>c\<close> in either order leaves the list without \<open>c\<close>, in which
  \<open>b\<close> is free and of size \<open>sz + sz + H\<close>.
\<close>

theorem kfree_coalesces_free_neighbours:
  assumes wf: "block_list s bs" and naf: "no_adjacent_free s bs"
  shows "(kfree_accepts H ptr s \<longrightarrow>
            kfree H ptr s
              = coalesce_prev H (ptr - H) (coalesce_next H (ptr - H)
                  (store_blk (ptr - H) (\<lambda>b. b\<lparr>hb_free := True\<rparr>) s))
            \<and> free_of (kfree H ptr s) (ptr - H))
       \<and> (ptr - H \<in> set bs \<longrightarrow>
            (\<exists>bs'. block_list (kfree H ptr s) bs' \<and> no_adjacent_free (kfree H ptr s) bs'))
       \<and> (bs = xs @ a # b # c # ys
            \<and> \<not> free_of s a \<and> \<not> free_of s b \<and> \<not> free_of s c
            \<and> size_of s b = sz \<and> size_of s c = sz
            \<and> kfree_accepts H (b + H) s \<and> kfree_accepts H (c + H) s
            \<and> (ys = [] \<or> \<not> free_of s (hd ys)) \<longrightarrow>
            (\<forall>s' \<in> {kfree H (b + H) (kfree H (c + H) s), kfree H (c + H) (kfree H (b + H) s)}.
               block_list s' (xs @ a # b # ys) \<and> no_adjacent_free s' (xs @ a # b # ys)
               \<and> free_of s' b \<and> size_of s' b = sz + sz + H))"
proof (intro conjI impI)
  assume "kfree_accepts H ptr s"
  then show "kfree H ptr s
               = coalesce_prev H (ptr - H) (coalesce_next H (ptr - H)
                   (store_blk (ptr - H) (\<lambda>b. b\<lparr>hb_free := True\<rparr>) s))"
    by (rule kfree_accepted)
next
  assume "kfree_accepts H ptr s"
  then show "free_of (kfree H ptr s) (ptr - H)"
    by (simp add: kfree_free_of)
next
  assume "ptr - H \<in> set bs"
  then obtain xs' ys' where bs: "bs = xs' @ (ptr - H) # ys'"
    by (auto simp: in_set_conv_decomp)
  show "\<exists>bs'. block_list (kfree H ptr s) bs' \<and> no_adjacent_free (kfree H ptr s) bs'"
  proof (cases "kfree_accepts H ptr s")
    case True
    have dist: "distinct (xs' @ (ptr - H) # ys')"
      using wf bs by (simp add: block_list_def)
    show ?thesis
      using kfree_block_list [OF wf [unfolded bs] True refl refl]
        kfree_no_adjacent_free [OF dist naf [unfolded bs] True refl refl]
      by (intro exI conjI)
  next
    case False
    then show ?thesis
      using wf naf by (auto simp: kfree_rejected)
  qed
next
  assume h: "bs = xs @ a # b # c # ys
            \<and> \<not> free_of s a \<and> \<not> free_of s b \<and> \<not> free_of s c
            \<and> size_of s b = sz \<and> size_of s c = sz
            \<and> kfree_accepts H (b + H) s \<and> kfree_accepts H (c + H) s
            \<and> (ys = [] \<or> \<not> free_of s (hd ys))"
  then have wf': "block_list s (xs @ a # b # c # ys)"
    and naf': "no_adjacent_free s (xs @ a # b # c # ys)"
    using wf naf by simp_all
  have used: "\<not> free_of s a" "\<not> free_of s b" "\<not> free_of s c"
    and sizes: "size_of s b = sz" "size_of s c = sz"
    and acc: "kfree_accepts H (b + H) s" "kfree_accepts H (c + H) s"
    and after: "ys = [] \<or> \<not> free_of s (hd ys)"
    using h by blast+
  note one = kfree_last_then_middle [OF wf' naf' used sizes after acc refl]
  note two = kfree_middle_then_last [OF wf' naf' used sizes after acc refl]
  show "\<forall>s' \<in> {kfree H (b + H) (kfree H (c + H) s), kfree H (c + H) (kfree H (b + H) s)}.
               block_list s' (xs @ a # b # ys) \<and> no_adjacent_free s' (xs @ a # b # ys)
               \<and> free_of s' b \<and> size_of s' b = sz + sz + H"
    using one two by blast
qed

text \<open>
  An instance: the second and third block of \<open>packed_heap\<close>, whose fourth block is in use.
\<close>

theorem kfree_coalesces_free_neighbours_witness:
  "block_list packed_heap [0x200000, 0x200088, 0x200110, 0x200198, 0x200220]
   \<and> no_adjacent_free packed_heap [0x200000, 0x200088, 0x200110, 0x200198, 0x200220]
   \<and> kfree_accepts HEAP_BLOCK_SIZE 0x2000A8 packed_heap
   \<and> kfree_accepts HEAP_BLOCK_SIZE 0x200130 packed_heap
   \<and> \<not> free_of packed_heap 0x200198
   \<and> block_list (kfree HEAP_BLOCK_SIZE 0x2000A8 (kfree HEAP_BLOCK_SIZE 0x200130 packed_heap))
       [0x200000, 0x200088, 0x200198, 0x200220]
   \<and> no_adjacent_free
       (kfree HEAP_BLOCK_SIZE 0x2000A8 (kfree HEAP_BLOCK_SIZE 0x200130 packed_heap))
       [0x200000, 0x200088, 0x200198, 0x200220]
   \<and> free_of (kfree HEAP_BLOCK_SIZE 0x2000A8 (kfree HEAP_BLOCK_SIZE 0x200130 packed_heap))
       0x200088
   \<and> size_of (kfree HEAP_BLOCK_SIZE 0x2000A8 (kfree HEAP_BLOCK_SIZE 0x200130 packed_heap))
       0x200088 = 240
   \<and> block_list (kfree HEAP_BLOCK_SIZE 0x200130 (kfree HEAP_BLOCK_SIZE 0x2000A8 packed_heap))
       [0x200000, 0x200088, 0x200198, 0x200220]
   \<and> no_adjacent_free
       (kfree HEAP_BLOCK_SIZE 0x200130 (kfree HEAP_BLOCK_SIZE 0x2000A8 packed_heap))
       [0x200000, 0x200088, 0x200198, 0x200220]
   \<and> free_of (kfree HEAP_BLOCK_SIZE 0x200130 (kfree HEAP_BLOCK_SIZE 0x2000A8 packed_heap))
       0x200088
   \<and> size_of (kfree HEAP_BLOCK_SIZE 0x200130 (kfree HEAP_BLOCK_SIZE 0x2000A8 packed_heap))
       0x200088 = 240
   \<and> free_of (kfree HEAP_BLOCK_SIZE 0x2000A8 packed_heap) 0x200088
   \<and> (\<exists>bs'. block_list (kfree HEAP_BLOCK_SIZE 0x2000A8 packed_heap) bs'
            \<and> no_adjacent_free (kfree HEAP_BLOCK_SIZE 0x2000A8 packed_heap) bs')"
proof -
  let ?bs = "[0x200000, 0x200088, 0x200110, 0x200198, 0x200220] :: addr list"
  have wf: "block_list packed_heap ?bs"
    using packed_heap_eval by (simp add: block_list_def NULL_def)
  have naf: "no_adjacent_free packed_heap ?bs"
    using packed_heap_eval by simp
  have acc: "kfree_accepts HEAP_BLOCK_SIZE 0x2000A8 packed_heap"
            "kfree_accepts HEAP_BLOCK_SIZE 0x200130 packed_heap"
    using packed_heap_eval by (simp_all add: kfree_accepts_def HEAP_BLOCK_SIZE_def NULL_def)
  have used: "\<not> free_of packed_heap 0x200198"
    using packed_heap_eval by simp
  have mem: "0x2000A8 - HEAP_BLOCK_SIZE \<in> set ?bs"
    by (simp add: HEAP_BLOCK_SIZE_def)
  have three: "?bs = [] @ 0x200000 # 0x200088 # 0x200110 # [0x200198, 0x200220]
      \<and> \<not> free_of packed_heap 0x200000 \<and> \<not> free_of packed_heap 0x200088
      \<and> \<not> free_of packed_heap 0x200110
      \<and> size_of packed_heap 0x200088 = 104 \<and> size_of packed_heap 0x200110 = 104
      \<and> kfree_accepts HEAP_BLOCK_SIZE (0x200088 + HEAP_BLOCK_SIZE) packed_heap
      \<and> kfree_accepts HEAP_BLOCK_SIZE (0x200110 + HEAP_BLOCK_SIZE) packed_heap
      \<and> ([0x200198, 0x200220] = [] \<or> \<not> free_of packed_heap (hd [0x200198, 0x200220]))"
    using packed_heap_eval acc by (simp add: HEAP_BLOCK_SIZE_def)
  note inst = kfree_coalesces_free_neighbours [OF wf naf, of HEAP_BLOCK_SIZE "0x2000A8"
      "[]" "0x200000" "0x200088" "0x200110" "[0x200198, 0x200220]" 104]
  note c1 = inst [THEN conjunct1, THEN mp, OF acc(1), THEN conjunct2]
  note c2 = inst [THEN conjunct2, THEN conjunct1, THEN mp, OF mem]
  note c3 = inst [THEN conjunct2, THEN conjunct2, THEN mp, OF three]
  show ?thesis
    using wf naf acc used c1 c2 c3
    by (auto simp: HEAP_BLOCK_SIZE_def)
qed

section \<open>Spinlock release\<close>

text \<open>
  Claim C9. \<open>spinlock_release\<close> by a caller whose task id is not the owner recorded in the
  lock leaves the whole state as it is, so the \<open>locked\<close> flag, the owner and the counters of
  the lock keep their values; the function returns nothing, so no error is reported.
\<close>

theorem spinlock_release_by_non_owner:
  "owner (get_lock r s) \<noteq> task_get_current_id s \<Longrightarrow> spinlock_release (Some r) s = s"
  by (simp add: spinlock_release_def)

text \<open>At boot no task runs (caller id 0); the scheduler lock is held by task 7.\<close>

theorem spinlock_release_by_non_owner_witness:
  "owner (get_lock SchedulerLock
      (demo_boot\<lparr>scheduler_lock := \<lparr>locked = 1, owner = 7, count = 3, recursion_count = 0\<rparr>\<rparr>))
     \<noteq> task_get_current_id
         (demo_boot\<lparr>scheduler_lock := \<lparr>locked = 1, owner = 7, count = 3, recursion_count = 0\<rparr>\<rparr>) \<and>
   scheduler_lock (spinlock_release (Some SchedulerLock)
      (demo_boot\<lparr>scheduler_lock := \<lparr>locked = 1, owner = 7, count = 3, recursion_count = 0\<rparr>\<rparr>))
     = \<lparr>locked = 1, owner = 7, count = 3, recursion_count = 0\<rparr>"
proof -
  let ?s = "demo_boot\<lparr>scheduler_lock := \<lparr>locked = 1, owner = 7, count = 3, recursion_count = 0\<rparr>\<rparr>"
  have h: "owner (get_lock SchedulerLock ?s) \<noteq> task_get_current_id ?s"
    by (simp add: get_lock_def task_get_current_id_def demo_boot_def kernel_boot_def NULL_def)
  from spinlock_release_by_non_owner [OF h] h show ?thesis by simp
qed

section \<open>Scheduler: selection, tick and ready queues\<close>

lemma store_tcb_frame [simp]:
  "ready_queues (store_tcb p f s) = ready_queues s"
  "task_list_head_ptr (store_tcb p f s) = task_list_head_ptr s"
  "current_task (store_tcb p f s) = current_task s"
  "mem (store_tcb p f s) = mem s"
  "ticks (store_tcb p f s) = ticks s"
  "stats (store_tcb p f s) = stats s"
  "task_list_lock (store_tcb p f s) = task_list_lock s"
  "scheduler_lock (store_tcb p f s) = scheduler_lock s"
  "next_task_id (store_tcb p f s) = next_task_id s"
  "scheduler_quantum (store_tcb p f s) = scheduler_quantum s"
  by (simp_all add: store_tcb_def)

lemma tasks_store_tcb:
  "tasks (store_tcb p f s) q = (if q = p then f (tasks s p) else tasks s q)"
  by (simp add: store_tcb_def)

text \<open>
  Claim C1 fails on this run. Tasks 1 and 2 are created at \<open>PRIORITY_LOW\<close>, \<open>task_yield\<close>
  makes task 2 the running task, and \<open>task_set_priority(2, PRIORITY_IDLE)\<close> lowers it. A
  running task stays linked in its ready queue and \<open>task_set_priority\<close> moves only a task
  whose state is \<open>TASK_READY\<close>, so task 2 remains the head of the \<open>PRIORITY_LOW\<close> queue:
  \<open>find_next_ready_task\<close> selects it (its TCB is at \<open>0x202510\<close>) and \<open>schedule_next_task\<close> keeps
  it running at priority \<open>PRIORITY_IDLE\<close>, while task 1 (TCB at \<open>0x200020\<close>) is \<open>TASK_READY\<close> at
  \<open>PRIORITY_LOW\<close>.
\<close>

theorem priority_inversion_after_set_priority:
  "do { (s1, r) \<leftarrow> task_init demo_platform demo_boot;
        (s2, a) \<leftarrow> task_create demo_platform (Some ''a'') 0x102000 PRIORITY_LOW TASK_FLAG_KERNEL s1;
        (s3, b) \<leftarrow> task_create demo_platform (Some ''b'') 0x103000 PRIORITY_LOW TASK_FLAG_KERNEL s2;
        s4 \<leftarrow> task_yield s3;
        (s5, r) \<leftarrow> task_set_priority b PRIORITY_IDLE s4;
        s6 \<leftarrow> schedule_next_task s5;
        Some (a, b, r, find_next_ready_task s5, current_task s6,
              t_id (tasks s6 (current_task s6)), t_priority (tasks s6 (current_task s6)),
              t_id (tasks s6 0x200020), t_state (tasks s6 0x200020), t_priority (tasks s6 0x200020))
      } = Some (1, 2, 0, 0x202510, 0x202510, 2, PRIORITY_IDLE, 1, TASK_READY, PRIORITY_LOW)"
  by (simp add: task_eval lock_eval prio_eval heap_eval cong: eval_congs)

text \<open>
  Claim C2 fails on this run. Task 1 runs at \<open>PRIORITY_LOW\<close> with 50 ticks of its slice
  left, and task 2 (TCB at \<open>0x202510\<close>) is \<open>TASK_READY\<close> at \<open>PRIORITY_NORMAL\<close>. \<open>scheduler_tick\<close>
  looks only at the queues \<open>PRIORITY_CRITICAL\<close> and \<open>PRIORITY_HIGH\<close>: it takes one tick off
  the slice and returns with task 1 still running, the slice not reset and no context
  switch counted.
\<close>

theorem tick_does_not_preempt_for_normal_over_low:
  "do { (s1, r) \<leftarrow> task_init demo_platform demo_boot;
        (s2, a) \<leftarrow> task_create demo_platform (Some ''a'') 0x102000 PRIORITY_LOW TASK_FLAG_KERNEL s1;
        s3 \<leftarrow> task_yield s2;
        (s4, b) \<leftarrow> task_create demo_platform (Some ''b'') 0x103000 PRIORITY_NORMAL TASK_FLAG_KERNEL s3;
        s5 \<leftarrow> scheduler_tick s4;
        Some ((t_id (tasks s4 (current_task s4)), t_state (tasks s4 (current_task s4)),
               t_priority (tasks s4 (current_task s4)),
               t_time_slice_remaining (tasks s4 (current_task s4))),
              (t_id (tasks s4 0x202510), t_state (tasks s4 0x202510), t_priority (tasks s4 0x202510)),
              (t_id (tasks s5 (current_task s5)), t_state (tasks s5 (current_task s5)),
               t_time_slice_remaining (tasks s5 (current_task s5))),
              t_state (tasks s5 0x202510),
              context_switches (stats s5) = context_switches (stats s4))
      } = Some ((1, TASK_RUNNING, PRIORITY_LOW, 50), (2, TASK_READY, PRIORITY_NORMAL),
                (1, TASK_RUNNING, 49), TASK_READY, True)"
  by (simp add: task_eval lock_eval prio_eval heap_eval cong: eval_congs)






subsection \<open>Nested acquisition of the scheduler lock\<close>

text \<open>
  \<open>task_sleep\<close>, \<open>task_exit\<close>, \<open>task_suspend\<close> and \<open>task_resume\<close> call
  \<open>remove_from_ready_queue\<close> or \<open>add_to_ready_queue\<close> while they hold \<open>scheduler_lock\<close>, and
  these take the same lock again. \<open>spinlock_acquire\<close> has no recursion: with the flag set it
  spins for ever. So a call that gets past the early returns of its function and concerns a
  task with a valid priority does not return, and the states \<open>TASK_BLOCKED\<close>,
  \<open>TASK_SUSPENDED\<close> and \<open>TASK_TERMINATED\<close> are written only by calls that do not come back.
\<close>

lemma spin_while_locked_returns:
  assumes "spin_while_locked l = Some l'"
  shows "locked l = 0"
proof (rule spin_while_locked.raw_induct [where P = "\<lambda>l l'. locked l = 0", OF _ assms])
  fix f :: "spinlock \<Rightarrow> spinlock option" and l l'
  assume ih: "\<And>l l'. f l = Some l' \<Longrightarrow> locked l = 0"
    and run: "(if locked l \<noteq> 0 then f l else Some l) = Some l'"
  show "locked l = 0"
  proof (rule ccontr)
    assume "locked l \<noteq> 0"
    with run have "f l = Some l'" by simp
    then have "locked l = 0" by (rule ih)
    with \<open>locked l \<noteq> 0\<close> show False by simp
  qed
qed

lemma spin_while_locked_held: "locked l \<noteq> 0 \<Longrightarrow> spin_while_locked l = None"
  using spin_while_locked_returns [of l] by (cases "spin_while_locked l") auto

lemma spin_test_and_set_held: "locked l \<noteq> 0 \<Longrightarrow> spin_test_and_set l = None"
  by (simp add: spin_test_and_set.simps [of l] spin_while_locked_held)

lemma spinlock_acquire_held:
  "locked (get_lock r s) \<noteq> 0 \<Longrightarrow> spinlock_acquire (Some r) s = None"
  by (simp add: spinlock_acquire_def spin_test_and_set_held)

lemma spinlock_acquire_returns:
  assumes "spinlock_acquire (Some r) s = Some s'"
  shows "locked (get_lock r s') \<noteq> 0" and "tasks s' = tasks s"
    and "current_task s' = current_task s"
proof -
  have free: "locked (get_lock r s) = 0"
    using assms spinlock_acquire_held [of r s] by (cases "locked (get_lock r s) = 0") auto
  then have "spin_test_and_set (get_lock r s) = Some ((get_lock r s)\<lparr>locked := 1\<rparr>)"
    by (simp add: spin_test_and_set.simps [of "get_lock r s"])
  then have s': "s' = put_lock r s ((get_lock r s)\<lparr>locked := 1, owner := task_get_current_id s,
      count := count (get_lock r s) + 1\<rparr>)"
    using assms by (simp add: spinlock_acquire_def Let_def)
  show "locked (get_lock r s') \<noteq> 0" "tasks s' = tasks s" "current_task s' = current_task s"
    unfolding s' by (cases r; simp add: get_lock_def put_lock_def)+
qed

lemma remove_from_ready_queue_held:
  assumes "locked (scheduler_lock s) \<noteq> 0" and "task \<noteq> NULL"
    and "t_priority (tasks s task) \<le> PRIORITY_CRITICAL"
  shows "remove_from_ready_queue task s = None"
  using assms spinlock_acquire_held [of SchedulerLock s]
  by (simp add: remove_from_ready_queue_def get_lock_def)

lemma add_to_ready_queue_held:
  assumes "locked (scheduler_lock s) \<noteq> 0" and "task \<noteq> NULL"
    and "t_priority (tasks s task) \<le> PRIORITY_CRITICAL"
  shows "add_to_ready_queue task s = None"
  using assms spinlock_acquire_held [of SchedulerLock s]
  by (simp add: add_to_ready_queue_def get_lock_def)

lemma task_sleep_never_returns:
  assumes "current_task s \<noteq> NULL" and "t_id (tasks s (current_task s)) \<noteq> 0"
    and "t_priority (tasks s (current_task s)) \<le> PRIORITY_CRITICAL"
  shows "task_sleep P milliseconds s = None"
proof -
  let ?s2 = "store_tcb (current_task s) (\<lambda>t. t\<lparr>t_state := TASK_BLOCKED\<rparr>)
      (store_tcb (current_task s)
        (\<lambda>t. t\<lparr>t_sleep_until :=
                 timer_get_ticks s + ucast (milliseconds * timer_frequency P div 1000)\<rparr>) s)"
  have "do { s3 \<leftarrow> spinlock_acquire (Some SchedulerLock) ?s2;
             remove_from_ready_queue (current_task s3) s3 } = None"
  proof (cases "spinlock_acquire (Some SchedulerLock) ?s2")
    case None
    then show ?thesis by simp
  next
    case (Some s3)
    note r = spinlock_acquire_returns [OF Some]
    have "remove_from_ready_queue (current_task s3) s3 = None"
      using r assms
      by (intro remove_from_ready_queue_held) (simp_all add: get_lock_def tasks_store_tcb)
    then show ?thesis using Some by simp
  qed
  then show ?thesis
    using assms(1,2)
    by (cases "spinlock_acquire (Some SchedulerLock) ?s2") (auto simp: task_sleep_def Let_def)
qed

lemma task_exit_never_returns:
  assumes "current_task s \<noteq> NULL" and "t_id (tasks s (current_task s)) \<noteq> 0"
    and "t_priority (tasks s (current_task s)) \<le> PRIORITY_CRITICAL"
  shows "task_exit exit_code s = None"
proof -
  let ?s2 = "store_tcb (current_task s) (\<lambda>t. t\<lparr>t_state := TASK_TERMINATED\<rparr>)
      (store_tcb (current_task s) (\<lambda>t. t\<lparr>t_exit_code := exit_code\<rparr>) s)"
  have "do { s3 \<leftarrow> spinlock_acquire (Some SchedulerLock) ?s2;
             remove_from_ready_queue (current_task s3) s3 } = None"
  proof (cases "spinlock_acquire (Some SchedulerLock) ?s2")
    case None
    then show ?thesis by simp
  next
    case (Some s3)
    note r = spinlock_acquire_returns [OF Some]
    have "remove_from_ready_queue (current_task s3) s3 = None"
      using r assms
      by (intro remove_from_ready_queue_held) (simp_all add: get_lock_def tasks_store_tcb)
    then show ?thesis using Some by simp
  qed
  then show ?thesis
    using assms(1,2)
    by (cases "spinlock_acquire (Some SchedulerLock) ?s2") (auto simp: task_exit_def Let_def)
qed

lemma task_suspend_never_returns:
  assumes "task_get_by_id task_id s = Some (s1, task)"
    and "task \<noteq> NULL" and "t_id (tasks s1 task) \<noteq> 0"
    and "t_state (tasks s1 task) = TASK_RUNNING \<or> t_state (tasks s1 task) = TASK_READY"
    and "t_priority (tasks s1 task) \<le> PRIORITY_CRITICAL"
  shows "task_suspend task_id s = None"
proof (cases "spinlock_acquire (Some SchedulerLock) s1")
  case None
  then show ?thesis
    using assms(1-3) by (simp add: task_suspend_def)
next
  case (Some s2)
  note r = spinlock_acquire_returns [OF Some]
  have "remove_from_ready_queue task
          (store_tcb task (\<lambda>t. t\<lparr>t_state := TASK_SUSPENDED\<rparr>) s2) = None"
    using r assms(2,5)
    by (intro remove_from_ready_queue_held) (simp_all add: get_lock_def tasks_store_tcb)
  then show ?thesis
    using assms(1-4) Some r(2) by (auto simp: task_suspend_def)
qed

lemma task_resume_never_returns:
  assumes "task_get_by_id task_id s = Some (s1, task)"
    and "task \<noteq> NULL" and "t_state (tasks s1 task) = TASK_SUSPENDED"
    and "t_priority (tasks s1 task) \<le> PRIORITY_CRITICAL"
  shows "task_resume task_id s = None"
proof (cases "spinlock_acquire (Some SchedulerLock) s1")
  case None
  then show ?thesis
    using assms(1-3) by (simp add: task_resume_def)
next
  case (Some s2)
  note r = spinlock_acquire_returns [OF Some]
  have "add_to_ready_queue task (store_tcb task (\<lambda>t. t\<lparr>t_state := TASK_READY\<rparr>) s2) = None"
    using r assms(2,4)
    by (intro add_to_ready_queue_held) (simp_all add: get_lock_def tasks_store_tcb)
  then show ?thesis
    using assms(1-3) Some by (simp add: task_resume_def)
qed

section \<open>Task creation: failure cases\<close>

text \<open>
  Claim C8, as stated, fails for the empty name: \<open>task_create\<close> tests the name pointer
  against \<open>NULL\<close> only. With the empty string it returns the id 1, and the new task is the
  head of the global list and of the ready queue \<open>PRIORITY_NORMAL\<close>.
\<close>

theorem task_create_accepts_empty_name:
  "do { (s1, r) \<leftarrow> task_init demo_platform demo_boot;
        (s2, a) \<leftarrow> task_create demo_platform (Some []) 0x102000 PRIORITY_NORMAL TASK_FLAG_KERNEL s1;
        Some (a, t_name (tasks s2 (task_list_head_ptr s2)), t_id (tasks s2 (task_list_head_ptr s2)),
              ready_queues s2 PRIORITY_NORMAL = task_list_head_ptr s2,
              t_state (tasks s2 (task_list_head_ptr s2)))
      } = Some (1, [], 1, True, TASK_READY)"
  by (simp add: task_eval lock_eval prio_eval heap_eval cong: eval_congs)
lemma spin_test_and_set_free:
  "locked l = 0 \<Longrightarrow> spin_test_and_set l = Some (l\<lparr>locked := 1\<rparr>)"
  by (simp add: spin_test_and_set.simps)

lemma spinlock_acquire_free:
  assumes "locked (get_lock r s) = 0"
  shows "spinlock_acquire (Some r) s =
           Some (put_lock r s ((get_lock r s)\<lparr>locked := 1, owner := task_get_current_id s,
                                 count := count (get_lock r s) + 1\<rparr>))"
  using assms by (simp add: spinlock_acquire_def spin_test_and_set_free Let_def)

lemma put_lock_frame [simp]:
  "ready_queues (put_lock r s l) = ready_queues s"
  "task_list_head_ptr (put_lock r s l) = task_list_head_ptr s"
  "current_task (put_lock r s l) = current_task s"
  "mem (put_lock r s l) = mem s"
  "tasks (put_lock r s l) = tasks s"
  "next_task_id (put_lock r s l) = next_task_id s"
  "scheduler_quantum (put_lock r s l) = scheduler_quantum s"
  "ticks (put_lock r s l) = ticks s"
  by (cases r; simp add: put_lock_def)+

lemma spinlock_release_frame [simp]:
  "ready_queues (spinlock_release lock s) = ready_queues s"
  "task_list_head_ptr (spinlock_release lock s) = task_list_head_ptr s"
  "current_task (spinlock_release lock s) = current_task s"
  "mem (spinlock_release lock s) = mem s"
  "tasks (spinlock_release lock s) = tasks s"
  "next_task_id (spinlock_release lock s) = next_task_id s"
  "scheduler_quantum (spinlock_release lock s) = scheduler_quantum s"
  "ticks (spinlock_release lock s) = ticks s"
  by (cases lock; simp add: spinlock_release_def Let_def)+

lemma heap_alloc_result:
  assumes "heap_alloc P sz s = Some (s1, p)"
  shows "\<exists>m. kmalloc (sizeof_heap_block_t P) sz (mem s) = Some (m, p) \<and> s1 = s\<lparr>mem := m\<rparr>"
  using assms by (auto simp: heap_alloc_def split: Option.bind_splits)

lemma heap_free_frame [simp]:
  "ready_queues (heap_free P p s) = ready_queues s"
  "task_list_head_ptr (heap_free P p s) = task_list_head_ptr s"
  "tasks (heap_free P p s) = tasks s"
  by (simp_all add: heap_free_def)

lemma task_alloc_stack_fails:
  assumes "task \<noteq> NULL" "sz \<noteq> 0"
    and "kmalloc (sizeof_heap_block_t P) sz (mem s) = Some (m2, NULL)"
  shows "task_alloc_stack P task sz s =
           Some (store_tcb task (\<lambda>t. t\<lparr>t_stack_base := NULL\<rparr>) (s\<lparr>mem := m2\<rparr>), - 1)"
  using assms by (simp add: task_alloc_stack_def heap_alloc_def Let_def tasks_store_tcb)

lemma task_create_stack_failure:
  assumes name: "name \<noteq> None" and entry: "entry_point \<noteq> NULL"
    and tcb: "heap_alloc P (sizeof_task_t P) s = Some (s1, task)" and nonnull: "task \<noteq> NULL"
    and lock: "locked (task_list_lock s) = 0"
    and stack: "kmalloc (sizeof_heap_block_t P) TASK_STACK_SIZE (mem s1) = Some (m2, NULL)"
  shows "\<exists>s'. task_create P name entry_point priority flags s = Some (s', 0) \<and>
              task_list_head_ptr s' = task_list_head_ptr s \<and>
              ready_queues s' = ready_queues s \<and>
              (\<forall>q. q \<noteq> task \<longrightarrow> tasks s' q = tasks s q)"
proof -
  from name obtain n where n: "name = Some n" by auto
  from heap_alloc_result [OF tcb] obtain m where m: "s1 = s\<lparr>mem := m\<rparr>" by blast
  let ?s2 = "s\<lparr>mem := m, tasks := (tasks s)(task := zero_task)\<rparr>"
  have l2: "locked (get_lock TaskListLock ?s2) = 0"
    using lock by (simp add: get_lock_def)
  note acq = spinlock_acquire_free [OF l2]
  have sz: "TASK_STACK_SIZE \<noteq> 0" by (simp add: TASK_STACK_SIZE_def)
  have fails: "\<And>x. mem x = m \<Longrightarrow>
      task_alloc_stack P task TASK_STACK_SIZE x =
        Some (store_tcb task (\<lambda>t. t\<lparr>t_stack_base := NULL\<rparr>) (x\<lparr>mem := m2\<rparr>), - 1)"
    using task_alloc_stack_fails [OF nonnull sz] stack m by simp
  show ?thesis
    using entry nonnull
    by (simp add: task_create_def n tcb acq Let_def fails tasks_store_tcb m)
qed

text \<open>
  Claim C8, amended: the empty name is not a failure case. \<open>task_create\<close> returns 0 when the
  name or the entry point is \<open>NULL\<close>, with the state unchanged; when the allocation of the
  TCB returns \<open>NULL\<close>, with the lists and all TCBs unchanged; and when the allocation of the
  stack returns \<open>NULL\<close> (the task list lock being free, so that the call returns), with
  the head of the global list, the five queue heads and every TCB but the freed one
  unchanged.
\<close>

theorem task_create_failure_cases:
  "(name = None \<or> entry_point = NULL \<longrightarrow>
      task_create P name entry_point priority flags s = Some (s, 0)) \<and>
   (name \<noteq> None \<and> entry_point \<noteq> NULL \<and> heap_alloc P (sizeof_task_t P) s = Some (s1, NULL) \<longrightarrow>
      task_create P name entry_point priority flags s = Some (s1, 0) \<and>
      task_list_head_ptr s1 = task_list_head_ptr s \<and> ready_queues s1 = ready_queues s \<and>
      tasks s1 = tasks s) \<and>
   (name \<noteq> None \<and> entry_point \<noteq> NULL \<and> heap_alloc P (sizeof_task_t P) s = Some (s1, task) \<and>
    task \<noteq> NULL \<and> locked (task_list_lock s) = 0 \<and>
    kmalloc (sizeof_heap_block_t P) TASK_STACK_SIZE (mem s1) = Some (m2, NULL) \<longrightarrow>
      (\<exists>s'. task_create P name entry_point priority flags s = Some (s', 0) \<and>
            task_list_head_ptr s' = task_list_head_ptr s \<and>
            ready_queues s' = ready_queues s \<and>
            (\<forall>q. q \<noteq> task \<longrightarrow> tasks s' q = tasks s q)))"
proof (intro conjI impI)
  assume "name = None \<or> entry_point = NULL"
  then show "task_create P name entry_point priority flags s = Some (s, 0)"
    by (auto simp: task_create_def)
next
  assume a: "name \<noteq> None \<and> entry_point \<noteq> NULL \<and>
    heap_alloc P (sizeof_task_t P) s = Some (s1, NULL)"
  then show "task_create P name entry_point priority flags s = Some (s1, 0)"
    by (auto simp: task_create_def)
  from a heap_alloc_result [of P "sizeof_task_t P" s s1 NULL]
  obtain m where "s1 = s\<lparr>mem := m\<rparr>" by blast
  then show "task_list_head_ptr s1 = task_list_head_ptr s" "ready_queues s1 = ready_queues s"
    "tasks s1 = tasks s" by simp_all
next
  assume "name \<noteq> None \<and> entry_point \<noteq> NULL \<and>
    heap_alloc P (sizeof_task_t P) s = Some (s1, task) \<and>
    task \<noteq> NULL \<and> locked (task_list_lock s) = 0 \<and>
    kmalloc (sizeof_heap_block_t P) TASK_STACK_SIZE (mem s1) = Some (m2, NULL)"
  then show "\<exists>s'. task_create P name entry_point priority flags s = Some (s', 0) \<and>
            task_list_head_ptr s' = task_list_head_ptr s \<and>
            ready_queues s' = ready_queues s \<and>
            (\<forall>q. q \<noteq> task \<longrightarrow> tasks s' q = tasks s q)"
    using task_create_stack_failure by blast
qed

text \<open>
  A \<open>NULL\<close> name at boot, and a heap of 2048 bytes, where the TCB is allocated at \<open>0x200020\<close>
  and the stack of 8192 bytes is not.
\<close>

theorem task_create_failure_cases_witness:
  "task_create demo_platform None 0x102000 PRIORITY_NORMAL TASK_FLAG_KERNEL demo_boot
     = Some (demo_boot, 0) \<and>
   Some ''a'' \<noteq> None \<and> (0x102000 :: addr) \<noteq> NULL \<and>
   map_option snd (heap_alloc demo_platform (sizeof_task_t demo_platform) small_boot)
     = Some 0x200020 \<and>
   (0x200020 :: addr) \<noteq> NULL \<and> locked (task_list_lock small_boot) = 0 \<and>
   map_option snd (kmalloc (sizeof_heap_block_t demo_platform) TASK_STACK_SIZE
     (mem (fst (the (heap_alloc demo_platform (sizeof_task_t demo_platform) small_boot)))))
     = Some NULL \<and>
   map_option snd
     (task_create demo_platform (Some ''a'') 0x102000 PRIORITY_NORMAL TASK_FLAG_KERNEL small_boot)
     = Some 0 \<and>
   task_list_head_ptr (fst (the
     (task_create demo_platform (Some ''a'') 0x102000 PRIORITY_NORMAL TASK_FLAG_KERNEL small_boot)))
     = NULL"
proof -
  let ?P = demo_platform
  have 1: "task_create ?P None 0x102000 PRIORITY_NORMAL TASK_FLAG_KERNEL demo_boot
      = Some (demo_boot, 0)"
    using task_create_failure_cases [where name = None and entry_point = "0x102000" and P = ?P
        and priority = PRIORITY_NORMAL and flags = TASK_FLAG_KERNEL and s = demo_boot]
    by simp
  have name: "Some ''a'' \<noteq> None" and entry: "(0x102000 :: addr) \<noteq> NULL"
    and task: "(0x200020 :: addr) \<noteq> NULL" and lock: "locked (task_list_lock small_boot) = 0"
    by (simp_all add: NULL_def small_boot_def kernel_boot_def zero_lock_def)
  have tcb: "map_option snd (heap_alloc ?P (sizeof_task_t ?P) small_boot) = Some 0x200020"
    by (simp add: task_eval heap_eval cong: eval_congs)
  then obtain s1 where s1: "heap_alloc ?P (sizeof_task_t ?P) small_boot = Some (s1, 0x200020)"
    by auto
  have stack: "map_option snd (kmalloc (sizeof_heap_block_t ?P) TASK_STACK_SIZE
      (mem (fst (the (heap_alloc ?P (sizeof_task_t ?P) small_boot))))) = Some NULL"
    by (simp add: task_eval heap_eval cong: eval_congs)
  then obtain m2 where m2: "kmalloc (sizeof_heap_block_t ?P) TASK_STACK_SIZE (mem s1)
      = Some (m2, NULL)"
    using s1 by auto
  from task_create_failure_cases [where name = "Some ''a''" and entry_point = "0x102000"
      and P = ?P and s = small_boot and ?s1.0 = s1 and priority = PRIORITY_NORMAL
      and flags = TASK_FLAG_KERNEL and task = "0x200020" and ?m2.0 = m2]
    name entry s1 task lock m2
  obtain s' where "task_create ?P (Some ''a'') 0x102000 PRIORITY_NORMAL TASK_FLAG_KERNEL small_boot
      = Some (s', 0)" "task_list_head_ptr s' = task_list_head_ptr small_boot"
    by blast
  moreover have "task_list_head_ptr small_boot = NULL"
    by (simp add: small_boot_def kernel_boot_def)
  ultimately show ?thesis
    using 1 name entry tcb task lock stack by simp
qed


end
